theory Spec2Isabelle
  imports Main "HOL-Library.AList" "HOL-Library.Char_ord" "HOL-Library.List_Lexorder"
begin

section \<open>Values, errors and backends\<close>

text \<open>
  A shallow embedding of \<^verbatim>\<open>src/union.ts\<close>: the class \<^verbatim>\<open>Union\<close>, a stack of
  filesystems. JavaScript values that the code inspects (the elements of \<^verbatim>\<open>args\<close>, the
  results of backend calls) are a small datatype; \<open>JFun\<close> is a function value (a caller's
  callback), \<open>JObj\<close> an opaque object.
\<close>

datatype jsval = JUndefined | JNull | JBool bool | JNum int | JStr string | JFun | JObj nat

text \<open>
  \<^verbatim>\<open>IUnionFsError\<close>: an error with its optional \<^verbatim>\<open>prev\<close> back-reference. Every failure
  of a backend is taken to be a fresh object, so the assignment \<^verbatim>\<open>err.prev = lastError\<close>
  is the value \<open>set_prev err lastError\<close>.
\<close>

datatype IUnionFsError = Error (message: string) (prev: "IUnionFsError option")

fun set_prev :: "IUnionFsError \<Rightarrow> IUnionFsError option \<Rightarrow> IUnionFsError" where
  "set_prev (Error m p) lastError = Error m lastError"

text \<open>The errors met when following \<^verbatim>\<open>prev\<close> from an error, the error itself first.\<close>

fun chain :: "IUnionFsError \<Rightarrow> string list" where
  "chain (Error m None) = [m]"
| "chain (Error m (Some e)) = m # chain e"

text \<open>\<^verbatim>\<open>VolOptions\<close>: both flags are optional; \<open>None\<close> is \<^verbatim>\<open>undefined\<close>.\<close>

record VolOptions =
  readable :: "bool option"
  writable :: "bool option"

text \<open>
  What a callback-style backend function does when called: it throws, it calls the callback
  it was given (with an error or without one, and further arguments), or it never calls it.
\<close>

datatype 'r async_behaviour =
    AThrows IUnionFsError
  | ACalls "IUnionFsError option" 'r
  | ANever

text \<open>What a promise-style backend function does: it throws, or its promise rejects, resolves or stays pending.\<close>

datatype 'r promise_behaviour =
    PThrows IUnionFsError
  | PRejects IUnionFsError
  | PResolves 'r
  | PPending

datatype readdirEntry = EntryString string | EntryBuffer string | Dirent (dirent_name: string) (dirent_kind: nat)

type_synonym stream = nat

text \<open>A reference to a filesystem object: an entry of the union's own list, or some other object.\<close>

datatype fsref = UnionFs nat | OtherFs nat

text \<open>The \<^verbatim>\<open>options\<close> object of \<^verbatim>\<open>createWriteStream\<close>: its \<^verbatim>\<open>fs\<close> field and the rest.\<close>

record StreamOptions =
  opt_fs :: "fsref option"
  opt_rest :: "(string \<times> jsval) list"

record promises_table =
  promiseFns :: "string \<Rightarrow> (jsval list \<Rightarrow> jsval promise_behaviour) option"
  promises_readdir :: "(jsval list \<Rightarrow> readdirEntry list promise_behaviour) option"

text \<open>
  \<^verbatim>\<open>IFS\<close>, one filesystem as the union sees it. A member that the object does not have is
  \<open>None\<close>. The members the class treats specially have a field each; \<open>syncFns\<close> and
  \<open>asyncFns\<close> hold the others by name.
\<close>

record IFS =
  syncFns :: "string \<Rightarrow> (jsval list \<Rightarrow> IUnionFsError + jsval) option"
  asyncFns :: "string \<Rightarrow> (jsval list \<Rightarrow> jsval list async_behaviour) option"
  promises :: "promises_table option"
  open_fn :: "(jsval list \<Rightarrow> jsval list async_behaviour) option"
  openSync_fn :: "(jsval list \<Rightarrow> IUnionFsError + jsval) option"
  readdir_fn :: "(jsval list \<Rightarrow> readdirEntry list option async_behaviour) option"
  readdirSync_fn :: "(jsval list \<Rightarrow> IUnionFsError + readdirEntry list) option"
  existsSync_fn :: "(string \<Rightarrow> IUnionFsError + bool) option"
  createReadStream_fn :: "(string \<Rightarrow> IUnionFsError + stream option) option"
  createWriteStream_fn :: "(string \<Rightarrow> StreamOptions \<Rightarrow> IUnionFsError + stream option) option"
  ReadStream_cls :: "nat option"
  WriteStream_cls :: "nat option"

text \<open>The field \<^verbatim>\<open>fss\<close>: the entries in registration order, index 0 the first one registered.\<close>

type_synonym registry = "(IFS \<times> VolOptions) list"

section \<open>Text of the values interpolated into messages\<close>

definition digit_char :: "nat \<Rightarrow> char" where
  "digit_char n = ''0123456789'' ! n"

fun nat_digits :: "nat \<Rightarrow> string" where
  "nat_digits n = (if n < 10 then [digit_char n] else nat_digits (n div 10) @ [digit_char (n mod 10)])"

definition int_digits :: "int \<Rightarrow> string" where
  "int_digits k = (if k < 0 then CHR ''-'' # nat_digits (nat (- k)) else nat_digits (nat k))"

text \<open>
  An element of an array as \<^verbatim>\<open>Array.prototype.join\<close> writes it: \<^verbatim>\<open>undefined\<close> and
  \<^verbatim>\<open>null\<close> as the empty string. The text of a function is its source, which the model
  does not have; it is written \<open>function\<close>. A number is an integer written in decimal digits;
  JavaScript writes the integers from \<open>10\<^sup>2\<^sup>1\<close> on with an exponent, and has numbers that are
  not integers. These texts only appear inside messages.
\<close>

fun join_text :: "jsval \<Rightarrow> string" where
  "join_text JUndefined = ''''"
| "join_text JNull = ''''"
| "join_text (JBool b) = (if b then ''true'' else ''false'')"
| "join_text (JNum k) = int_digits k"
| "join_text (JStr s) = s"
| "join_text JFun = ''function''"
| "join_text (JObj n) = ''[object Object]''"

fun String_args :: "jsval list \<Rightarrow> string" where
  "String_args [] = ''''"
| "String_args [x] = join_text x"
| "String_args (x # y # ys) = join_text x @ '','' @ String_args (y # ys)"

section \<open>The generic dispatchers\<close>

text \<open>
  Each operation returns its outcome and the list of the entries whose backend function it
  called, in the order of the calls (an entry is named by its index in \<^verbatim>\<open>fss\<close>).
\<close>

text \<open>
  \<^verbatim>\<open>syncMethod\<close>: the loop \<^verbatim>\<open>for (let i = this.fss.length - 1; i >= 0; i--)\<close>;
  \<open>syncMethod_from \<dots> (Suc i)\<close> is the loop about to run its body at \<open>i\<close>, and
  \<open>syncMethod_try\<close> the \<^verbatim>\<open>try\<close> block of the body, whose \<open>Inl\<close> is what the \<^verbatim>\<open>catch\<close>
  receives. A loop that ends without returning makes the method return \<^verbatim>\<open>undefined\<close>.
\<close>

definition syncMethod_try ::
  "IFS \<Rightarrow> string \<Rightarrow> jsval list \<Rightarrow> nat \<Rightarrow> nat list \<Rightarrow> (IUnionFsError + jsval) \<times> nat list" where
  "syncMethod_try fs method args i log =
    (case syncFns fs method of
       None \<Rightarrow> (Inl (Error (''Method not supported: \"'' @ method @ ''\" with args \"''
                      @ String_args args @ ''\"'') None), log)
     | Some f \<Rightarrow> (f args, log @ [i]))"

fun syncMethod_from ::
  "registry \<Rightarrow> string \<Rightarrow> jsval list \<Rightarrow> nat \<Rightarrow> IUnionFsError option \<Rightarrow> nat list
    \<Rightarrow> (IUnionFsError + jsval) \<times> nat list" where
  "syncMethod_from fss method args 0 lastError log = (Inr JUndefined, log)"
| "syncMethod_from fss method args (Suc i) lastError log =
    (let fs = fst (fss ! i);
         (attempt, log') = syncMethod_try fs method args i log
     in case attempt of
          Inr v \<Rightarrow> (Inr v, log')
        | Inl err \<Rightarrow>
            (let err' = set_prev err lastError
             in if i = 0 then (Inl err', log')
                else syncMethod_from fss method args i (Some err') log'))"

definition syncMethod :: "registry \<Rightarrow> string \<Rightarrow> jsval list \<Rightarrow> (IUnionFsError + jsval) \<times> nat list" where
  "syncMethod fss method args =
    (if fss = [] then (Inl (Error ''No file systems attached'' None), [])
     else syncMethod_from fss method args (length fss) None [])"

text \<open>
  The callback convention. \<open>find_cb\<close> is the prologue shared by \<^verbatim>\<open>asyncMethod\<close>,
  \<^verbatim>\<open>open\<close> and \<^verbatim>\<open>readdir\<close>: whether the last argument is a function, and the
  position \<^verbatim>\<open>lastarg\<close> where the intermediate callback is stored.
\<close>

definition find_cb :: "jsval list \<Rightarrow> bool \<times> nat" where
  "find_cb args =
    (if args \<noteq> [] \<and> last args = JFun then (True, length args - 1) else (False, length args))"

text \<open>\<^verbatim>\<open>args[lastarg] = function \<dots>\<close>: an assignment at the length of an array extends it.\<close>

definition set_arg :: "jsval list \<Rightarrow> nat \<Rightarrow> jsval \<Rightarrow> jsval list" where
  "set_arg args k v = (if k < length args then args[k := v] else args @ [v])"

text \<open>
  What became of the caller's callback: it was never called, or called with an error (or a
  value that is not one, \<open>None\<close>) and the further arguments; or the operation threw.
\<close>

datatype 'r callback_outcome =
    NotCalled
  | Called "IUnionFsError option" 'r
  | Threw IUnionFsError

text \<open>The first statement of every \<^verbatim>\<open>iterate\<close>: \<^verbatim>\<open>if (err) { err.prev = lastError; lastError = err; }\<close>.\<close>

definition link_err :: "IUnionFsError option \<Rightarrow> IUnionFsError option \<Rightarrow> IUnionFsError option \<times> IUnionFsError option" where
  "link_err err lastError =
    (case err of None \<Rightarrow> (None, lastError)
     | Some e \<Rightarrow> (Some (set_prev e lastError), Some (set_prev e lastError)))"

text \<open>
  \<^verbatim>\<open>asyncMethod\<close>: \<open>asyncMethod_iterate \<dots> k err \<dots>\<close> is \<^verbatim>\<open>iterate(i, err)\<close> with
  \<open>k = this.fss.length - i\<close>, so that the entry it tries is \<open>j = k - 1\<close>.
\<close>

fun asyncMethod_iterate ::
  "registry \<Rightarrow> string \<Rightarrow> jsval list \<Rightarrow> bool \<Rightarrow> nat \<Rightarrow> IUnionFsError option \<Rightarrow> IUnionFsError option
    \<Rightarrow> nat list \<Rightarrow> jsval list callback_outcome \<times> nat list" where
  "asyncMethod_iterate fss method args cb 0 err lastError log =
    (let (err', lastError') = link_err err lastError
     in (if cb then
           (case err' of
              Some e \<Rightarrow> Called (Some e) []
            | None \<Rightarrow> if fss = [] then Called (Some (Error ''No file systems attached.'' None)) []
                      else Called None [])
         else NotCalled, log))"
| "asyncMethod_iterate fss method args cb (Suc j) err lastError log =
    (let (err', lastError') = link_err err lastError
     in case asyncFns (fst (fss ! j)) method of
          None \<Rightarrow> asyncMethod_iterate fss method args cb j
                    (Some (Error (''Method not supported: '' @ method) None)) lastError' log
        | Some func \<Rightarrow>
            (case func args of
               AThrows e \<Rightarrow> asyncMethod_iterate fss method args cb j (Some e) lastError' (log @ [j])
             | ACalls (Some e) rest \<Rightarrow> asyncMethod_iterate fss method args cb j (Some e) lastError' (log @ [j])
             | ACalls None rest \<Rightarrow> (if cb then Called None rest else NotCalled, log @ [j])
             | ANever \<Rightarrow> (NotCalled, log @ [j])))"

definition asyncMethod :: "registry \<Rightarrow> string \<Rightarrow> jsval list \<Rightarrow> jsval list callback_outcome \<times> nat list" where
  "asyncMethod fss method args =
    (let (cb, lastarg) = find_cb args
     in asyncMethod_iterate fss method (set_arg args lastarg JFun) cb (length fss) None None [])"

text \<open>\<^verbatim>\<open>promiseMethod\<close>: the same loop as \<^verbatim>\<open>syncMethod\<close>, on \<^verbatim>\<open>theFs.promises\<close>.\<close>

datatype 'r promise_outcome = Rejected IUnionFsError | Resolved 'r | Pending

definition promiseMethod_try ::
  "IFS \<Rightarrow> string \<Rightarrow> jsval list \<Rightarrow> nat \<Rightarrow> nat list \<Rightarrow> jsval promise_behaviour \<times> nat list" where
  "promiseMethod_try theFs method args i log =
    (let unsupported = PThrows (Error (''Promise of method not supported: \"'' @ method
                          @ ''\" with args \"'' @ String_args args @ ''\"'') None)
     in case promises theFs of
          None \<Rightarrow> (unsupported, log)
        | Some p \<Rightarrow>
            (case promiseFns p method of
               None \<Rightarrow> (unsupported, log)
             | Some f \<Rightarrow> (f args, log @ [i])))"

text \<open>What \<^verbatim>\<open>await\<close> in a \<^verbatim>\<open>try\<close> block makes of a behaviour: a throw and a rejection are both caught.\<close>

fun awaited :: "'r promise_behaviour \<Rightarrow> (IUnionFsError + 'r) option" where
  "awaited (PThrows err) = Some (Inl err)"
| "awaited (PRejects err) = Some (Inl err)"
| "awaited (PResolves v) = Some (Inr v)"
| "awaited PPending = None"

fun promiseMethod_from ::
  "registry \<Rightarrow> string \<Rightarrow> jsval list \<Rightarrow> nat \<Rightarrow> IUnionFsError option \<Rightarrow> nat list
    \<Rightarrow> jsval promise_outcome \<times> nat list" where
  "promiseMethod_from fss method args 0 lastError log = (Resolved JUndefined, log)"
| "promiseMethod_from fss method args (Suc i) lastError log =
    (let theFs = fst (fss ! i);
         (attempt, log') = promiseMethod_try theFs method args i log
     in case awaited attempt of
          None \<Rightarrow> (Pending, log')
        | Some (Inr v) \<Rightarrow> (Resolved v, log')
        | Some (Inl err) \<Rightarrow>
            (let err' = set_prev err lastError
             in if i = 0 then (Rejected err', log')
                else promiseMethod_from fss method args i (Some err') log'))"

definition promiseMethod :: "registry \<Rightarrow> string \<Rightarrow> jsval list \<Rightarrow> jsval promise_outcome \<times> nat list" where
  "promiseMethod fss method args = promiseMethod_from fss method args (length fss) None []"

section \<open>Opening a file\<close>

text \<open>\<^verbatim>\<open>args[k]\<close>: reading past the end of an array gives \<^verbatim>\<open>undefined\<close>.\<close>

definition arg_at :: "jsval list \<Rightarrow> nat \<Rightarrow> jsval" where
  "arg_at args k = (if k < length args then args ! k else JUndefined)"

definition startsWith :: "string \<Rightarrow> string \<Rightarrow> bool" where
  "startsWith s p = (take (length p) s = p)"

text \<open>
  The three tests of \<^verbatim>\<open>open\<close> and \<^verbatim>\<open>openSync\<close> that skip an entry:
  \<^verbatim>\<open>flags.startsWith('r') && readable === false\<close>, then \<^verbatim>\<open>'w'\<close> with \<^verbatim>\<open>writable\<close>,
  then \<^verbatim>\<open>'a'\<close> with either. A \<^verbatim>\<open>flags\<close> that is not a string has no \<^verbatim>\<open>startsWith\<close>
  to call, and the first test throws a TypeError, worded as Node words it: one text for
  \<^verbatim>\<open>undefined\<close> and \<^verbatim>\<open>null\<close>, whose properties cannot be read, another for the other values.
\<close>

definition skipEntry :: "jsval \<Rightarrow> VolOptions \<Rightarrow> IUnionFsError + bool" where
  "skipEntry flags opts =
    (case flags of
       JStr s \<Rightarrow>
         Inr ((startsWith s ''r'' \<and> readable opts = Some False)
            \<or> (startsWith s ''w'' \<and> writable opts = Some False)
            \<or> (startsWith s ''a'' \<and> (writable opts = Some False \<or> readable opts = Some False)))
     | JUndefined \<Rightarrow>
         Inl (Error (''TypeError: Cannot read properties of undefined (reading ''
                     @ [CHR 0x27] @ ''startsWith'' @ [CHR 0x27] @ '')'') None)
     | JNull \<Rightarrow>
         Inl (Error (''TypeError: Cannot read properties of null (reading ''
                     @ [CHR 0x27] @ ''startsWith'' @ [CHR 0x27] @ '')'') None)
     | _ \<Rightarrow> Inl (Error ''TypeError: flags.startsWith is not a function'' None))"

text \<open>
  \<^verbatim>\<open>open\<close>: \<open>open_iterate \<dots> k err \<dots>\<close> is \<^verbatim>\<open>iterate(i, err)\<close> with
  \<open>k = this.fss.length - i\<close>. A skipped entry continues with \<^verbatim>\<open>iterate(i + 1)\<close>, that is
  with no \<^verbatim>\<open>err\<close>. The TypeError of a \<^verbatim>\<open>flags\<close> that is not a string leaves
  \<^verbatim>\<open>open\<close> at the first entry, before any backend is called.
\<close>

fun open_iterate ::
  "registry \<Rightarrow> jsval \<Rightarrow> jsval list \<Rightarrow> bool \<Rightarrow> nat \<Rightarrow> IUnionFsError option \<Rightarrow> IUnionFsError option
    \<Rightarrow> nat list \<Rightarrow> jsval list callback_outcome \<times> nat list" where
  "open_iterate fss flags args cb 0 err lastError log =
    (let (err', lastError') = link_err err lastError
     in (if cb then
           (case err' of
              Some e \<Rightarrow> Called (Some e) []
            | None \<Rightarrow> if fss = [] then Called (Some (Error ''No file systems attached.'' None)) []
                      else Called None [])
         else NotCalled, log))"
| "open_iterate fss flags args cb (Suc j) err lastError log =
    (let (err', lastError') = link_err err lastError;
         (fs, opts) = fss ! j
     in case skipEntry flags opts of
          Inl typeError \<Rightarrow> (Threw typeError, log)
        | Inr True \<Rightarrow> open_iterate fss flags args cb j None lastError' log
        | Inr False \<Rightarrow>
            (case open_fn fs of
               None \<Rightarrow> open_iterate fss flags args cb j
                         (Some (Error ''Method not supported: open'' None)) lastError' log
             | Some func \<Rightarrow>
                 (case func args of
                    AThrows e \<Rightarrow> open_iterate fss flags args cb j (Some e) lastError' (log @ [j])
                  | ACalls (Some e) rest \<Rightarrow> open_iterate fss flags args cb j (Some e) lastError' (log @ [j])
                  | ACalls None rest \<Rightarrow> (if cb then Called None rest else NotCalled, log @ [j])
                  | ANever \<Rightarrow> (NotCalled, log @ [j]))))"

definition open_cb :: "registry \<Rightarrow> jsval list \<Rightarrow> jsval list callback_outcome \<times> nat list" where
  "open_cb fss args =
    (let flags = (if length args < 3 then JStr ''r'' else arg_at args 1);
         (cb, lastarg) = find_cb args
     in open_iterate fss flags (set_arg args lastarg JFun) cb (length fss) None None [])"

text \<open>\<^verbatim>\<open>openSync\<close>: \<open>openSync_from \<dots> (Suc i)\<close> is the loop about to run its body at \<open>i\<close>.\<close>

definition openSync_try ::
  "IFS \<Rightarrow> jsval list \<Rightarrow> nat \<Rightarrow> nat list \<Rightarrow> (IUnionFsError + jsval) \<times> nat list" where
  "openSync_try fs args i log =
    (case openSync_fn fs of
       None \<Rightarrow> (Inl (Error (''Method not supported: \"openSync\" with args \"''
                      @ String_args args @ ''\"'') None), log)
     | Some f \<Rightarrow> (f args, log @ [i]))"

fun openSync_from ::
  "registry \<Rightarrow> jsval \<Rightarrow> jsval list \<Rightarrow> nat \<Rightarrow> IUnionFsError option \<Rightarrow> nat list
    \<Rightarrow> (IUnionFsError + jsval) \<times> nat list" where
  "openSync_from fss flags args 0 lastError log = (Inr JUndefined, log)"
| "openSync_from fss flags args (Suc i) lastError log =
    (let (fs, opts) = fss ! i
     in case skipEntry flags opts of
          Inl typeError \<Rightarrow> (Inl typeError, log)
        | Inr True \<Rightarrow> openSync_from fss flags args i lastError log
        | Inr False \<Rightarrow>
            (let (attempt, log') = openSync_try fs args i log
             in case attempt of
                  Inr v \<Rightarrow> (Inr v, log')
                | Inl err \<Rightarrow>
                    (let err' = set_prev err lastError
                     in if i = 0 then (Inl err', log')
                        else openSync_from fss flags args i (Some err') log')))"

definition openSync :: "registry \<Rightarrow> jsval list \<Rightarrow> (IUnionFsError + jsval) \<times> nat list" where
  "openSync fss args = openSync_from fss (arg_at args 1) args (length fss) None []"

section \<open>Directory listings\<close>

fun pathFromReaddirEntry :: "readdirEntry \<Rightarrow> string" where
  "pathFromReaddirEntry (EntryString s) = s"
| "pathFromReaddirEntry (EntryBuffer s) = s"
| "pathFromReaddirEntry (Dirent name kind) = name"

text \<open>
  The \<^verbatim>\<open>Map<string, readdirEntry>\<close> is an association list in insertion order:
  \<^verbatim>\<open>result.set(k, v)\<close> replaces the value of a key that is there, at its place, and
  appends a new key, which is \<^const>\<open>AList.update\<close>.
\<close>

definition set_all :: "readdirEntry list \<Rightarrow> (string \<times> readdirEntry) list \<Rightarrow> (string \<times> readdirEntry) list" where
  "set_all entries result = fold (\<lambda>res r. AList.update (pathFromReaddirEntry res) res r) entries result"

text \<open>
  \<^verbatim>\<open>sortedArrayFromReaddirResult\<close>: the keys sorted by \<^verbatim>\<open>Array.prototype.sort\<close>
  (strings compared unit by unit), each replaced by its value.
\<close>

definition sortedArrayFromReaddirResult :: "(string \<times> readdirEntry) list \<Rightarrow> readdirEntry list" where
  "sortedArrayFromReaddirResult readdirResult =
    concat (map (\<lambda>key. case map_of readdirResult key of None \<Rightarrow> [] | Some v \<Rightarrow> [v])
                (sort (map fst readdirResult)))"

definition readdirSync_try ::
  "IFS \<Rightarrow> jsval list \<Rightarrow> nat \<Rightarrow> nat list \<Rightarrow> (IUnionFsError + readdirEntry list) \<times> nat list" where
  "readdirSync_try fs args i log =
    (case readdirSync_fn fs of
       None \<Rightarrow> (Inl (Error (''Method not supported: \"readdirSync\" with args \"''
                      @ String_args args @ ''\"'') None), log)
     | Some f \<Rightarrow> (f args, log @ [i]))"

fun readdirSync_from ::
  "registry \<Rightarrow> jsval list \<Rightarrow> nat \<Rightarrow> IUnionFsError option \<Rightarrow> (string \<times> readdirEntry) list \<Rightarrow> nat list
    \<Rightarrow> (IUnionFsError + readdirEntry list) \<times> nat list" where
  "readdirSync_from fss args 0 lastError result log = (Inr (sortedArrayFromReaddirResult result), log)"
| "readdirSync_from fss args (Suc i) lastError result log =
    (let (fs, opts) = fss ! i
     in if readable opts = Some False then readdirSync_from fss args i lastError result log
        else
          (let (attempt, log') = readdirSync_try fs args i log
           in case attempt of
                Inr entries \<Rightarrow> readdirSync_from fss args i lastError (set_all entries result) log'
              | Inl err \<Rightarrow>
                  (let err' = set_prev err lastError
                   in if result = [] \<and> i = 0 then (Inl err', log')
                      else readdirSync_from fss args i (Some err') result log')))"

definition readdirSync :: "registry \<Rightarrow> jsval list \<Rightarrow> (IUnionFsError + readdirEntry list) \<times> nat list" where
  "readdirSync fss args = readdirSync_from fss args (length fss) None [] []"

definition readdirPromise_try ::
  "IFS \<Rightarrow> jsval list \<Rightarrow> nat \<Rightarrow> nat list \<Rightarrow> readdirEntry list promise_behaviour \<times> nat list" where
  "readdirPromise_try fs args i log =
    (let unsupported = PThrows (Error (''Method not supported: \"readdirSync\" with args \"''
                          @ String_args args @ ''\"'') None)
     in case promises fs of
          None \<Rightarrow> (unsupported, log)
        | Some p \<Rightarrow>
            (case promises_readdir p of
               None \<Rightarrow> (unsupported, log)
             | Some f \<Rightarrow> (f args, log @ [i])))"

fun readdirPromise_from ::
  "registry \<Rightarrow> jsval list \<Rightarrow> nat \<Rightarrow> IUnionFsError option \<Rightarrow> (string \<times> readdirEntry) list \<Rightarrow> nat list
    \<Rightarrow> readdirEntry list promise_outcome \<times> nat list" where
  "readdirPromise_from fss args 0 lastError result log = (Resolved (sortedArrayFromReaddirResult result), log)"
| "readdirPromise_from fss args (Suc i) lastError result log =
    (let (fs, opts) = fss ! i
     in if readable opts = Some False then readdirPromise_from fss args i lastError result log
        else
          (let (attempt, log') = readdirPromise_try fs args i log
           in case awaited attempt of
                None \<Rightarrow> (Pending, log')
              | Some (Inr entries) \<Rightarrow> readdirPromise_from fss args i lastError (set_all entries result) log'
              | Some (Inl err) \<Rightarrow>
                  (let err' = set_prev err lastError
                   in if result = [] \<and> i = 0 then (Rejected err', log')
                      else readdirPromise_from fss args i (Some err') result log')))"

definition readdirPromise :: "registry \<Rightarrow> jsval list \<Rightarrow> readdirEntry list promise_outcome \<times> nat list" where
  "readdirPromise fss args = readdirPromise_from fss args (length fss) None [] []"

section \<open>The callback form of \<^verbatim>\<open>readdir\<close>\<close>

text \<open>
  The callback form passes one error object to \<^verbatim>\<open>iterate\<close> more than once, so that
  \<^verbatim>\<open>error.prev = lastError\<close> can make an object its own predecessor. Its errors are therefore
  objects in a store, named by their position; a failure of a backend enters the store as a new
  object.
\<close>

record error_object =
  eo_message :: string
  eo_prev :: "nat option"

type_synonym error_store = "error_object list"

definition new_error :: "error_store \<Rightarrow> string \<Rightarrow> error_store \<times> nat" where
  "new_error store msg = (store @ [\<lparr>eo_message = msg, eo_prev = None\<rparr>], length store)"

text \<open>\<^verbatim>\<open>if (error) { error.prev = lastError; lastError = error; }\<close> on the store.\<close>

definition link_object :: "error_store \<Rightarrow> nat option \<Rightarrow> nat option \<Rightarrow> error_store \<times> nat option" where
  "link_object store error lastError =
    (case error of
       None \<Rightarrow> (store, lastError)
     | Some a \<Rightarrow> (store[a := (store ! a)\<lparr>eo_prev := lastError\<rparr>], Some a))"

text \<open>
  What became of the caller's callback: not called, called with an error object or with
  \<^verbatim>\<open>null\<close> and the listing, or \<^verbatim>\<open>readdir\<close> threw (a backend's throw is not caught here, and
  neither is the call of a callback that is not there).
\<close>

datatype readdir_outcome =
    ReaddirNotCalled
  | ReaddirCalled "nat option" "readdirEntry list option"
  | ReaddirThrew IUnionFsError

text \<open>
  \<^verbatim>\<open>readdir\<close>: \<open>readdir_iterate \<dots> k error \<dots>\<close> is \<^verbatim>\<open>iterate(i, error)\<close> with
  \<open>k = this.fss.length - i\<close>; the entry it visits is \<open>j = k - 1\<close>, and \<^verbatim>\<open>i === this.fss.length - 1\<close>
  is \<open>j = 0\<close>. After a visit that is not the last, \<^verbatim>\<open>iterate(i + 1, error)\<close> passes on the
  \<^verbatim>\<open>error\<close> that this call of \<^verbatim>\<open>iterate\<close> received.
\<close>

fun readdir_iterate ::
  "registry \<Rightarrow> jsval list \<Rightarrow> bool \<Rightarrow> nat \<Rightarrow> nat option \<Rightarrow> error_store \<Rightarrow> nat option
    \<Rightarrow> (string \<times> readdirEntry) list \<Rightarrow> nat list \<Rightarrow> readdir_outcome \<times> error_store \<times> nat list" where
  "readdir_iterate fss args cb 0 error store lastError result log =
    (let (store1, lastError1) = link_object store error lastError
     in if cb then
          (case error of
             Some a \<Rightarrow> (ReaddirCalled (Some a) None, store1, log)
           | None \<Rightarrow>
               (let (store2, a) = new_error store1 ''No file systems attached.''
                in (ReaddirCalled (Some a) None, store2, log)))
        else (ReaddirNotCalled, store1, log))"
| "readdir_iterate fss args cb (Suc j) error store lastError result log =
    (let (store1, lastError1) = link_object store error lastError;
         (fs, opts) = fss ! j;
         i = length fss - Suc j
     in case readdir_fn fs of
          None \<Rightarrow>
            (let (store2, a) = new_error store1 ''Method not supported: readdir''
             in readdir_iterate fss args cb j (Some a) store2 lastError1 result log)
        | Some func \<Rightarrow>
            if readable opts = Some False then
              (let (store2, a) = new_error store1
                     (''Readable disabled for vol '' @ [CHR 0x27] @ nat_digits i @ [CHR 0x27] @ '': readdir'')
               in readdir_iterate fss args cb j (Some a) store2 lastError1 result log)
            else
              (case func args of
                 AThrows e \<Rightarrow> (ReaddirThrew e, store1, log @ [j])
               | ANever \<Rightarrow> (ReaddirNotCalled, store1, log @ [j])
               | ACalls err resArg \<Rightarrow>
                   (if result = [] \<and> err \<noteq> None then
                      (let (store2, a) = new_error store1 (message (the err))
                       in readdir_iterate fss args cb j (Some a) store2 lastError1 result (log @ [j]))
                    else
                      (let result' = (case resArg of None \<Rightarrow> result | Some entries \<Rightarrow> set_all entries result)
                       in if j = 0 then
                            (if cb then (ReaddirCalled None (Some (sortedArrayFromReaddirResult result')),
                                         store1, log @ [j])
                             else (ReaddirThrew (Error ''TypeError: cb is not a function'' None),
                                   store1, log @ [j]))
                          else readdir_iterate fss args cb j error store1 lastError1 result' (log @ [j])))))"

definition readdir_cb :: "registry \<Rightarrow> jsval list \<Rightarrow> readdir_outcome \<times> error_store \<times> nat list" where
  "readdir_cb fss args =
    (let (cb, lastarg) = find_cb args
     in readdir_iterate fss (set_arg args lastarg JFun) cb (length fss) None [] None [] [])"

text \<open>The messages met in the store when following \<^verbatim>\<open>prev\<close> from an object for \<open>n\<close> steps.\<close>

fun chain_in :: "error_store \<Rightarrow> nat \<Rightarrow> nat \<Rightarrow> string list" where
  "chain_in store 0 a = []"
| "chain_in store (Suc n) a =
    eo_message (store ! a) # (case eo_prev (store ! a) of None \<Rightarrow> [] | Some b \<Rightarrow> chain_in store n b)"

section \<open>Streams\<close>

text \<open>
  The public fields \<^verbatim>\<open>ReadStream\<close> and \<^verbatim>\<open>WriteStream\<close> of the union: the class made by
  \<^verbatim>\<open>stripBoundVolumeArg\<close> at construction, or the member of the filesystem that served the last
  stream (which that filesystem may not have).
\<close>

datatype stream_class = StrippedDefault | ClassOf "nat option"

datatype stream_call =
    CallExistsSync nat
  | CallCreateReadStream nat
  | CallCreateWriteStream nat StreamOptions

text \<open>The entry a logged call went to.\<close>

fun call_index :: "stream_call \<Rightarrow> nat" where
  "call_index (CallExistsSync i) = i"
| "call_index (CallCreateReadStream i) = i"
| "call_index (CallCreateWriteStream i options) = i"

text \<open>
  \<^verbatim>\<open>createReadStream\<close>: the loop \<^verbatim>\<open>for (const [fs, { readable }] of this.fss)\<close>, which
  starts at index 0; \<open>entries\<close> is what is left of \<^verbatim>\<open>fss\<close> and \<open>i\<close> the index of its head.
  \<open>createReadStream_try\<close> is the \<^verbatim>\<open>try\<close> block, up to the \<^verbatim>\<open>return\<close>. The value thrown at
  the end is \<^verbatim>\<open>lastError\<close>, which is \<^verbatim>\<open>null\<close> (\<open>None\<close>) when no entry was tried.
\<close>

definition createReadStream_try ::
  "IFS \<Rightarrow> nat \<Rightarrow> string \<Rightarrow> stream_call list \<Rightarrow> (IUnionFsError + stream) \<times> stream_call list" where
  "createReadStream_try fs i path log =
    (case createReadStream_fn fs of
       None \<Rightarrow> (Inl (Error ''Method not supported: \"createReadStream\"'' None), log)
     | Some create \<Rightarrow>
         (let (checked, log1) =
                (case existsSync_fn fs of
                   None \<Rightarrow> (Inr True, log)
                 | Some ex \<Rightarrow> (ex path, log @ [CallExistsSync i]))
          in case checked of
               Inl err \<Rightarrow> (Inl err, log1)
             | Inr False \<Rightarrow> (Inl (Error (''file \"'' @ path @ ''\" does not exists'') None), log1)
             | Inr True \<Rightarrow>
                 (case create path of
                    Inl err \<Rightarrow> (Inl err, log1 @ [CallCreateReadStream i])
                  | Inr None \<Rightarrow> (Inl (Error ''no valid stream'' None), log1 @ [CallCreateReadStream i])
                  | Inr (Some stream) \<Rightarrow> (Inr stream, log1 @ [CallCreateReadStream i]))))"

fun createReadStream_loop ::
  "registry \<Rightarrow> nat \<Rightarrow> string \<Rightarrow> IUnionFsError option \<Rightarrow> stream_class \<Rightarrow> stream_call list
    \<Rightarrow> (IUnionFsError option + stream) \<times> stream_class \<times> stream_call list" where
  "createReadStream_loop [] i path lastError cls log = (Inl lastError, cls, log)"
| "createReadStream_loop ((fs, opts) # entries) i path lastError cls log =
    (if readable opts = Some False then createReadStream_loop entries (Suc i) path lastError cls log
     else
       (case createReadStream_try fs i path log of
          (Inr stream, log') \<Rightarrow> (Inr stream, ClassOf (ReadStream_cls fs), log')
        | (Inl err, log') \<Rightarrow> createReadStream_loop entries (Suc i) path (Some err) cls log'))"

definition createReadStream ::
  "registry \<Rightarrow> stream_class \<Rightarrow> string \<Rightarrow> (IUnionFsError option + stream) \<times> stream_class \<times> stream_call list" where
  "createReadStream fss cls path = createReadStream_loop fss 0 path None cls []"

text \<open>
  \<^verbatim>\<open>createWriteStream\<close>: \<open>options\<close> is the object that \<^verbatim>\<open>options = options || {}\<close>
  leaves in the variable, threaded through the loop because \<^verbatim>\<open>options.fs = fs\<close> changes it; the
  result carries the object as it is at the end. A backend is taken not to change the object
  itself. The log records the object as each backend received it.
\<close>

definition createWriteStream_try ::
  "IFS \<Rightarrow> nat \<Rightarrow> string \<Rightarrow> StreamOptions \<Rightarrow> stream_call list
    \<Rightarrow> (IUnionFsError + stream) \<times> StreamOptions \<times> stream_call list" where
  "createWriteStream_try fs i path options log =
    (case createWriteStream_fn fs of
       None \<Rightarrow> (Inl (Error ''Method not supported: \"createWriteStream\"'' None), options, log)
     | Some create \<Rightarrow>
         (let options' = options\<lparr>opt_fs := Some (UnionFs i)\<rparr>;
              log' = log @ [CallCreateWriteStream i options']
          in case create path options' of
               Inl err \<Rightarrow> (Inl err, options', log')
             | Inr None \<Rightarrow> (Inl (Error ''no valid stream'' None), options', log')
             | Inr (Some stream) \<Rightarrow> (Inr stream, options', log')))"

fun createWriteStream_loop ::
  "registry \<Rightarrow> nat \<Rightarrow> string \<Rightarrow> StreamOptions \<Rightarrow> IUnionFsError option \<Rightarrow> stream_class \<Rightarrow> stream_call list
    \<Rightarrow> (IUnionFsError option + stream) \<times> StreamOptions \<times> stream_class \<times> stream_call list" where
  "createWriteStream_loop [] i path options lastError cls log = (Inl lastError, options, cls, log)"
| "createWriteStream_loop ((fs, opts) # entries) i path options lastError cls log =
    (if writable opts = Some False then createWriteStream_loop entries (Suc i) path options lastError cls log
     else
       (case createWriteStream_try fs i path options log of
          (Inr stream, options', log') \<Rightarrow> (Inr stream, options', ClassOf (WriteStream_cls fs), log')
        | (Inl err, options', log') \<Rightarrow>
            createWriteStream_loop entries (Suc i) path options' (Some err) cls log'))"

definition createWriteStream ::
  "registry \<Rightarrow> stream_class \<Rightarrow> string \<Rightarrow> StreamOptions option
    \<Rightarrow> (IUnionFsError option + stream) \<times> StreamOptions \<times> stream_class \<times> stream_call list" where
  "createWriteStream fss cls path options =
    createWriteStream_loop fss 0 path
      (case options of None \<Rightarrow> \<lparr>opt_fs = None, opt_rest = []\<rparr> | Some given \<Rightarrow> given)
      None cls []"

section \<open>Registering a filesystem\<close>

text \<open>
  The six lists of method names that \<^verbatim>\<open>union.ts\<close> imports from \<^verbatim>\<open>./lists\<close>. The lists
  themselves are not part of this file, so \<^verbatim>\<open>createFS\<close> takes them as a parameter.
\<close>

record method_lists =
  fsSyncMethodsRead :: "string list"
  fsSyncMethodsWrite :: "string list"
  fsAsyncMethodsRead :: "string list"
  fsAsyncMethodsWrite :: "string list"
  fsPromiseMethodsRead :: "string list"
  fsPromiseMethodsWrite :: "string list"

datatype direction = Reading | Writing

fun state_name :: "direction \<Rightarrow> string" where
  "state_name Reading = ''readable''"
| "state_name Writing = ''writable''"

text \<open>
  The object that \<^verbatim>\<open>createFS\<close> returns spreads \<^verbatim>\<open>fs\<close>, then the wrappers of the four
  lists in the order sync-read, sync-write, async-read, async-write; a later spread replaces an
  earlier member of the same name. \<open>member_direction\<close> is the list that decides the member \<open>m\<close>.
\<close>

definition member_direction :: "method_lists \<Rightarrow> string \<Rightarrow> direction option" where
  "member_direction L m =
    (if m \<in> set (fsAsyncMethodsWrite L) then Some Writing
     else if m \<in> set (fsAsyncMethodsRead L) then Some Reading
     else if m \<in> set (fsSyncMethodsWrite L) then Some Writing
     else if m \<in> set (fsSyncMethodsRead L) then Some Reading
     else None)"

definition promise_direction :: "method_lists \<Rightarrow> string \<Rightarrow> direction option" where
  "promise_direction L m =
    (if m \<in> set (fsPromiseMethodsWrite L) then Some Writing
     else if m \<in> set (fsPromiseMethodsRead L) then Some Reading
     else None)"

definition allowed :: "bool \<Rightarrow> bool \<Rightarrow> direction \<Rightarrow> bool" where
  "allowed r w d = (case d of Reading \<Rightarrow> r | Writing \<Rightarrow> w)"

text \<open>
  One member of the returned object. \<open>throw\<close> is how a thrown error shows in the member's type and
  \<open>text_of\<close> the text of its arguments. \<^verbatim>\<open>createErroringFn\<close> is the last branch,
  \<^verbatim>\<open>createFunc\<close> the one before.
\<close>

definition wrap_member ::
  "method_lists \<Rightarrow> bool \<Rightarrow> bool \<Rightarrow> string \<Rightarrow> (IUnionFsError \<Rightarrow> 'out) \<Rightarrow> ('args \<Rightarrow> string)
    \<Rightarrow> ('args \<Rightarrow> 'out) option \<Rightarrow> ('args \<Rightarrow> 'out) option" where
  "wrap_member L r w m throw text_of member =
    (case member_direction L m of
       None \<Rightarrow> member
     | Some d \<Rightarrow>
         Some (if allowed r w d then
                 (case member of
                    None \<Rightarrow> (\<lambda>args. throw (Error (''Method not supported: \"'' @ m @ ''\" with args \"''
                                              @ text_of args @ ''\"'') None))
                  | Some f \<Rightarrow> f)
               else (\<lambda>args. throw (Error (''Filesystem is not '' @ state_name d) None))))"

definition wrap_promise ::
  "method_lists \<Rightarrow> bool \<Rightarrow> bool \<Rightarrow> string \<Rightarrow> (jsval list \<Rightarrow> 'r promise_behaviour) option
    \<Rightarrow> (jsval list \<Rightarrow> 'r promise_behaviour) option" where
  "wrap_promise L r w m member =
    (case promise_direction L m of
       None \<Rightarrow> member
     | Some d \<Rightarrow>
         Some (case member of
                 None \<Rightarrow> (\<lambda>args. PThrows (Error (''Promise of method not supported: \"'' @ m
                                            @ ''\" with args \"'' @ String_args args @ ''\"'') None))
               | Some f \<Rightarrow>
                   if allowed r w d then f
                   else (\<lambda>args. PThrows (Error (''Filesystem is not '' @ state_name d) None))))"

definition createFS :: "method_lists \<Rightarrow> IFS \<Rightarrow> VolOptions \<Rightarrow> IFS" where
  "createFS L fs options =
    (let r = (case readable options of None \<Rightarrow> True | Some b \<Rightarrow> b);
         w = (case writable options of None \<Rightarrow> True | Some b \<Rightarrow> b)
     in \<lparr>syncFns = (\<lambda>m. wrap_member L r w m Inl String_args (syncFns fs m)),
         asyncFns = (\<lambda>m. wrap_member L r w m AThrows String_args (asyncFns fs m)),
         promises = Some
           \<lparr>promiseFns = (\<lambda>m. wrap_promise L r w m
                                 (case promises fs of None \<Rightarrow> None | Some p \<Rightarrow> promiseFns p m)),
            promises_readdir = wrap_promise L r w ''readdir''
                                 (case promises fs of None \<Rightarrow> None | Some p \<Rightarrow> promises_readdir p)\<rparr>,
         open_fn = wrap_member L r w ''open'' AThrows String_args (open_fn fs),
         openSync_fn = wrap_member L r w ''openSync'' Inl String_args (openSync_fn fs),
         readdir_fn = wrap_member L r w ''readdir'' AThrows String_args (readdir_fn fs),
         readdirSync_fn = wrap_member L r w ''readdirSync'' Inl String_args (readdirSync_fn fs),
         existsSync_fn = wrap_member L r w ''existsSync'' Inl (\<lambda>path. path) (existsSync_fn fs),
         createReadStream_fn =
           wrap_member L r w ''createReadStream'' Inl (\<lambda>path. path) (createReadStream_fn fs),
         createWriteStream_fn =
           map_option curry
             (wrap_member L r w ''createWriteStream'' Inl (\<lambda>(path, opts). path @ '',[object Object]'')
                (map_option case_prod (createWriteStream_fn fs))),
         ReadStream_cls = ReadStream_cls fs,
         WriteStream_cls = WriteStream_cls fs\<rparr>)"

text \<open>\<^verbatim>\<open>use\<close>: the new entry goes to the end of \<^verbatim>\<open>fss\<close>; \<^verbatim>\<open>options\<close> defaults to \<^verbatim>\<open>{}\<close>.\<close>

definition use :: "method_lists \<Rightarrow> registry \<Rightarrow> IFS \<Rightarrow> VolOptions option \<Rightarrow> registry" where
  "use L fss fs options =
    (let options' = (case options of None \<Rightarrow> \<lparr>readable = None, writable = None\<rparr> | Some given \<Rightarrow> given)
     in fss @ [(createFS L fs options', options')])"

section \<open>Filesystems and calls used as examples\<close>

text \<open>An object with no member at all, and the options \<^verbatim>\<open>{}\<close>.\<close>

definition emptyFs :: IFS where
  "emptyFs = \<lparr>syncFns = (\<lambda>m. None), asyncFns = (\<lambda>m. None), promises = None, open_fn = None,
     openSync_fn = None, readdir_fn = None, readdirSync_fn = None, existsSync_fn = None,
     createReadStream_fn = None, createWriteStream_fn = None, ReadStream_cls = None, WriteStream_cls = None\<rparr>"

definition defaults :: VolOptions where
  "defaults = \<lparr>readable = None, writable = None\<rparr>"

text \<open>A filesystem every generic method of which succeeds with the value \<open>v\<close>, in the three conventions.\<close>

definition answeringFs :: "jsval \<Rightarrow> IFS" where
  "answeringFs v = emptyFs\<lparr>
     syncFns := (\<lambda>m. Some (\<lambda>args. Inr v)),
     asyncFns := (\<lambda>m. Some (\<lambda>args. ACalls None [v])),
     promises := Some \<lparr>promiseFns = (\<lambda>m. Some (\<lambda>args. PResolves v)), promises_readdir = None\<rparr>\<rparr>"

text \<open>A filesystem every function of which fails with a fresh error of the message \<open>msg\<close>.\<close>

definition failingFs :: "string \<Rightarrow> IFS" where
  "failingFs msg = emptyFs\<lparr>
     syncFns := (\<lambda>m. Some (\<lambda>args. Inl (Error msg None))),
     asyncFns := (\<lambda>m. Some (\<lambda>args. ACalls (Some (Error msg None)) [])),
     promises := Some \<lparr>promiseFns = (\<lambda>m. Some (\<lambda>args. PRejects (Error msg None))),
                       promises_readdir = Some (\<lambda>args. PRejects (Error msg None))\<rparr>,
     open_fn := Some (\<lambda>args. ACalls (Some (Error msg None)) []),
     openSync_fn := Some (\<lambda>args. Inl (Error msg None)),
     readdir_fn := Some (\<lambda>args. ACalls (Some (Error msg None)) None),
     readdirSync_fn := Some (\<lambda>args. Inl (Error msg None)),
     createReadStream_fn := Some (\<lambda>path. Inl (Error msg None)),
     createWriteStream_fn := Some (\<lambda>path options. Inl (Error msg None))\<rparr>"

text \<open>A filesystem whose \<^verbatim>\<open>open\<close> and \<^verbatim>\<open>openSync\<close> succeed with the descriptor \<open>fd\<close>.\<close>

definition openingFs :: "int \<Rightarrow> IFS" where
  "openingFs fd = emptyFs\<lparr>
     open_fn := Some (\<lambda>args. ACalls None [JNum fd]),
     openSync_fn := Some (\<lambda>args. Inr (JNum fd))\<rparr>"

text \<open>The options \<^verbatim>\<open>{readable: false}\<close> and \<^verbatim>\<open>{writable: false}\<close>.\<close>

definition unreadable :: VolOptions where
  "unreadable = \<lparr>readable = Some False, writable = None\<rparr>"

definition unwritable :: VolOptions where
  "unwritable = \<lparr>readable = None, writable = Some False\<rparr>"

text \<open>A filesystem whose directory listing succeeds with \<open>entries\<close> in the three conventions.\<close>

definition listingFs :: "readdirEntry list \<Rightarrow> IFS" where
  "listingFs entries = emptyFs\<lparr>
     promises := Some \<lparr>promiseFns = (\<lambda>m. None), promises_readdir = Some (\<lambda>args. PResolves entries)\<rparr>,
     readdir_fn := Some (\<lambda>args. ACalls None (Some entries)),
     readdirSync_fn := Some (\<lambda>args. Inr entries)\<rparr>"

text \<open>
  A filesystem that has every path and serves the stream \<open>stream\<close> for reading and for writing.
\<close>

definition streamFs :: "stream \<Rightarrow> IFS" where
  "streamFs stream = emptyFs\<lparr>
     existsSync_fn := Some (\<lambda>path. Inr True),
     createReadStream_fn := Some (\<lambda>path. Inr (Some stream)),
     createWriteStream_fn := Some (\<lambda>path options. Inr (Some stream)),
     ReadStream_cls := Some stream,
     WriteStream_cls := Some stream\<rparr>"

text \<open>
  Lists of method names under which \<^verbatim>\<open>stat\<close> is a reading method in the three conventions.
\<close>

definition statLists :: method_lists where
  "statLists = \<lparr>fsSyncMethodsRead = [''statSync''], fsSyncMethodsWrite = [],
     fsAsyncMethodsRead = [''stat''], fsAsyncMethodsWrite = [],
     fsPromiseMethodsRead = [''stat''], fsPromiseMethodsWrite = []\<rparr>"

section \<open>Notions used to state the properties of the error chain\<close>

text \<open>
  The chain that hangs from \<^verbatim>\<open>lastError\<close>, and the entries that a mode string \<open>s\<close> does not
  make \<^verbatim>\<open>open\<close> and \<^verbatim>\<open>openSync\<close> skip.
\<close>

definition chain_of :: "IUnionFsError option \<Rightarrow> string list" where
  "chain_of lastError = (case lastError of None \<Rightarrow> [] | Some e \<Rightarrow> chain e)"

definition attempted :: "string \<Rightarrow> registry \<Rightarrow> registry" where
  "attempted s fss = filter (\<lambda>(fs, opts). skipEntry (JStr s) opts = Inr False) fss"

section \<open>Notions used to state the properties of directory listings\<close>

text \<open>
  What the visit of one entry adds to the map of \<^verbatim>\<open>readdirSync\<close>: nothing when the entry is not
  readable or its \<^verbatim>\<open>try\<close> block throws, the listing of its \<^verbatim>\<open>readdirSync\<close> otherwise.
  \<open>visited fss args k\<close> is what the entries below \<open>k\<close> add, in the order of the visits. A map is
  \<open>keyed\<close> when its keys are distinct and each value sits under its own name.
\<close>

definition listed :: "IFS \<times> VolOptions \<Rightarrow> jsval list \<Rightarrow> readdirEntry list" where
  "listed entry args =
    (if readable (snd entry) = Some False then []
     else (case fst (readdirSync_try (fst entry) args 0 []) of Inl err \<Rightarrow> [] | Inr entries \<Rightarrow> entries))"

definition visited :: "registry \<Rightarrow> jsval list \<Rightarrow> nat \<Rightarrow> readdirEntry list" where
  "visited fss args k = concat (map (\<lambda>entry. listed entry args) (rev (take k fss)))"

definition keyed :: "(string \<times> readdirEntry) list \<Rightarrow> bool" where
  "keyed r = (distinct (map fst r) \<and> (\<forall>(k, v) \<in> set r. pathFromReaddirEntry v = k))"

text \<open>
  The same notions for the callback form, whose backends receive the arguments with the
  intermediate callback in the last place. A readable entry that has a \<^verbatim>\<open>readdir\<close> \<open>answers\<close> when
  its backend calls that callback, with an error or with a listing but not with both; what the
  visit of an entry adds to the map is then its listing, and \<open>failure_cb\<close> is the error that
  the backend of an entry answers with.
\<close>

definition answers :: "IFS \<times> VolOptions \<Rightarrow> jsval list \<Rightarrow> bool" where
  "answers entry args =
    (if readable (snd entry) = Some False then True
     else (case readdir_fn (fst entry) of
             None \<Rightarrow> True
           | Some func \<Rightarrow>
               (case func args of
                  ACalls None resArg \<Rightarrow> True
                | ACalls (Some err) resArg \<Rightarrow> resArg = None
                | _ \<Rightarrow> False)))"

definition listed_cb :: "IFS \<times> VolOptions \<Rightarrow> jsval list \<Rightarrow> readdirEntry list" where
  "listed_cb entry args =
    (if readable (snd entry) = Some False then []
     else (case readdir_fn (fst entry) of
             None \<Rightarrow> []
           | Some func \<Rightarrow> (case func args of ACalls None (Some entries) \<Rightarrow> entries | _ \<Rightarrow> [])))"

definition visited_cb :: "registry \<Rightarrow> jsval list \<Rightarrow> nat \<Rightarrow> readdirEntry list" where
  "visited_cb fss args k = concat (map (\<lambda>entry. listed_cb entry args) (rev (take k fss)))"

definition failure_cb :: "IFS \<times> VolOptions \<Rightarrow> jsval list \<Rightarrow> IUnionFsError option" where
  "failure_cb entry args =
    (case readdir_fn (fst entry) of
       None \<Rightarrow> None
     | Some func \<Rightarrow> (case func args of ACalls err resArg \<Rightarrow> err | _ \<Rightarrow> None))"

text \<open>
  What the caller's callback receives from \<^verbatim>\<open>readdir\<close>: the message of the error object it
  is called with, or the listing.
\<close>

fun surfaced :: "readdir_outcome \<Rightarrow> error_store \<Rightarrow> (string + readdirEntry list) option" where
  "surfaced (ReaddirCalled (Some a) None) store =
    (if a < length store then Some (Inl (eo_message (store ! a))) else None)"
| "surfaced (ReaddirCalled None (Some xs)) store = Some (Inr xs)"
| "surfaced outcome store = None"

definition readdir_surfaced :: "readdir_outcome \<times> error_store \<times> nat list \<Rightarrow> (string + readdirEntry list) option" where
  "readdir_surfaced r = (case r of (outcome, store, log) \<Rightarrow> surfaced outcome store)"

text \<open>
  A listing in terms of what the entries add to the map: the failure of the entry registered
  first when that entry fails and the map has stayed empty, the sorted map otherwise.
\<close>

definition merged_cb :: "registry \<Rightarrow> jsval list \<Rightarrow> nat \<Rightarrow> (string \<times> readdirEntry) list \<Rightarrow> string + readdirEntry list" where
  "merged_cb fss args k result =
    (case failure_cb (fss ! 0) args of
       Some e \<Rightarrow>
         if set_all (visited_cb fss args k) result = [] then Inl (message e)
         else Inr (sortedArrayFromReaddirResult (set_all (visited_cb fss args k) result))
     | None \<Rightarrow> Inr (sortedArrayFromReaddirResult (set_all (visited_cb fss args k) result)))"

definition merged_sync :: "registry \<Rightarrow> jsval list \<Rightarrow> string + readdirEntry list" where
  "merged_sync fss args =
    (case fst (readdirSync_try (fst (fss ! 0)) args 0 []) of
       Inl e \<Rightarrow>
         if set_all (visited fss args (length fss)) [] = [] then Inl (message e)
         else Inr (sortedArrayFromReaddirResult (set_all (visited fss args (length fss)) []))
     | Inr entries \<Rightarrow> Inr (sortedArrayFromReaddirResult (set_all (visited fss args (length fss)) [])))"

section \<open>Comparing the calling conventions\<close>

text \<open>
  What it is for the blocking, the callback and the promise function of one filesystem to behave
  identically on the same arguments (the callback form receives them with the callback appended),
  and for the three forms of a union operation to have the same outcome: the same value, or the
  same error, which carries its chain.
\<close>

fun same_behaviour ::
  "IUnionFsError + jsval \<Rightarrow> jsval list async_behaviour \<Rightarrow> jsval promise_behaviour \<Rightarrow> bool" where
  "same_behaviour (Inr v) a p = (a = ACalls None [v] \<and> p = PResolves v)"
| "same_behaviour (Inl e) a p =
    ((case a of AThrows e' \<Rightarrow> e' = e | ACalls (Some e') rest \<Rightarrow> e' = e | _ \<Rightarrow> False)
     \<and> (case p of PThrows e' \<Rightarrow> e' = e | PRejects e' \<Rightarrow> e' = e | _ \<Rightarrow> False))"

definition same_behaviour_at :: "IFS \<Rightarrow> string \<Rightarrow> string \<Rightarrow> string \<Rightarrow> jsval list \<Rightarrow> bool" where
  "same_behaviour_at fs ms ma mp args =
    (case (syncFns fs ms, asyncFns fs ma, promises fs) of
       (Some f, Some g, Some p) \<Rightarrow>
         (case promiseFns p mp of
            Some h \<Rightarrow> same_behaviour (f args) (g (args @ [JFun])) (h args)
          | None \<Rightarrow> False)
     | _ \<Rightarrow> False)"

fun same_outcome ::
  "IUnionFsError + jsval \<Rightarrow> jsval list callback_outcome \<Rightarrow> jsval promise_outcome \<Rightarrow> bool" where
  "same_outcome (Inr v) c p = (c = Called None [v] \<and> p = Resolved v)"
| "same_outcome (Inl e) c p = (c = Called (Some e) [] \<and> p = Rejected e)"

definition as_promise :: "(IUnionFsError + 'r) \<times> nat list \<Rightarrow> 'r promise_outcome \<times> nat list" where
  "as_promise r = (case r of (Inl e, l) \<Rightarrow> (Rejected e, l) | (Inr v, l) \<Rightarrow> (Resolved v, l))"

definition as_callback :: "(IUnionFsError + jsval) \<times> nat list \<Rightarrow> jsval list callback_outcome \<times> nat list" where
  "as_callback r = (case r of (Inl e, l) \<Rightarrow> (Called (Some e) [], l) | (Inr v, l) \<Rightarrow> (Called None [v], l))"

text \<open>The same for \<^verbatim>\<open>readdirSync\<close> and \<^verbatim>\<open>promises.readdir\<close> of one filesystem.\<close>

definition same_listing_at :: "IFS \<Rightarrow> jsval list \<Rightarrow> bool" where
  "same_listing_at fs args =
    (case readdirSync_fn fs of
       None \<Rightarrow> (case promises fs of None \<Rightarrow> True | Some p \<Rightarrow> promises_readdir p = None)
     | Some f \<Rightarrow>
         (case promises fs of
            None \<Rightarrow> False
          | Some p \<Rightarrow>
              (case promises_readdir p of
                 None \<Rightarrow> False
               | Some h \<Rightarrow> awaited (h args) = Some (f args))))"

text \<open>
  The same for \<^verbatim>\<open>readdirSync\<close> and the callback \<^verbatim>\<open>readdir\<close> of one filesystem: where the
  one returns a listing the other hands it to the callback, and where the one throws the other
  hands the error to the callback.
\<close>

definition same_listing_cb_at :: "IFS \<Rightarrow> jsval list \<Rightarrow> bool" where
  "same_listing_cb_at fs args =
    (case readdirSync_fn fs of
       None \<Rightarrow> readdir_fn fs = None
     | Some f \<Rightarrow>
         (case readdir_fn fs of
            None \<Rightarrow> False
          | Some g \<Rightarrow>
              g (args @ [JFun])
                = (case f args of Inl e \<Rightarrow> ACalls (Some e) None | Inr entries \<Rightarrow> ACalls None (Some entries))))"

section \<open>Properties of the dispatchers\<close>

text \<open>
  Claim C1. On a registry that is not empty, when the function of the entry registered last
  succeeds, a generic operation gives that function's own result (the blocking form returns it, the
  callback form hands the caller's callback the very arguments, the promise form resolves to it) and
  the only backend function called is that entry's.
\<close>

theorem highest_priority_success:
  assumes "fss \<noteq> []"
  shows "(syncFns (fst (last fss)) mname = Some f \<and> f args = Inr v
            \<longrightarrow> syncMethod fss mname args = (Inr v, [length fss - 1]))
       \<and> (asyncFns (fst (last fss)) mname = Some g
            \<and> g (set_arg args (snd (find_cb args)) JFun) = ACalls None res
            \<longrightarrow> asyncMethod fss mname args
                 = (if fst (find_cb args) then Called None res else NotCalled, [length fss - 1]))
       \<and> (promises (fst (last fss)) = Some p \<and> promiseFns p mname = Some h \<and> h args = PResolves v
            \<longrightarrow> promiseMethod fss mname args = (Resolved v, [length fss - 1]))"
proof -
  from assms obtain n where n: "length fss = Suc n"
    by (cases fss) auto
  with assms have top: "fss ! n = last fss"
    by (simp add: last_conv_nth)
  show ?thesis
    using n top
    by (auto simp: syncMethod_def asyncMethod_def promiseMethod_def syncMethod_try_def
        promiseMethod_try_def link_err_def split: prod.splits)
qed

theorem highest_priority_success_witness:
  "[(answeringFs (JNum 1), defaults), (answeringFs (JNum 2), defaults)] \<noteq> []
   \<and> syncMethod [(answeringFs (JNum 1), defaults), (answeringFs (JNum 2), defaults)] ''stat'' [JStr ''/f'', JFun]
       = (Inr (JNum 2), [1])
   \<and> asyncMethod [(answeringFs (JNum 1), defaults), (answeringFs (JNum 2), defaults)] ''stat'' [JStr ''/f'', JFun]
       = (Called None [JNum 2], [1])
   \<and> promiseMethod [(answeringFs (JNum 1), defaults), (answeringFs (JNum 2), defaults)] ''stat'' [JStr ''/f'', JFun]
       = (Resolved (JNum 2), [1])"
  using highest_priority_success
    [where fss = "[(answeringFs (JNum 1), defaults), (answeringFs (JNum 2), defaults)]"
       and mname = "''stat''" and args = "[JStr ''/f'', JFun]" and v = "JNum 2" and res = "[JNum 2]"
       and f = "\<lambda>args. Inr (JNum 2)" and g = "\<lambda>args. ACalls None [JNum 2]"
       and h = "\<lambda>args. PResolves (JNum 2)"
       and p = "\<lparr>promiseFns = (\<lambda>m. Some (\<lambda>args. PResolves (JNum 2))), promises_readdir = None\<rparr>"]
  by (simp add: answeringFs_def emptyFs_def find_cb_def set_arg_def)

text \<open>
  Claim C2. What an operation does on a union with no filesystem: \<^verbatim>\<open>syncMethod\<close> throws
  ``No file systems attached'', \<^verbatim>\<open>asyncMethod\<close> and \<^verbatim>\<open>open\<close> hand the callback an error
  of that message with a full stop, but \<^verbatim>\<open>openSync\<close> returns \<^verbatim>\<open>undefined\<close> and
  \<^verbatim>\<open>promiseMethod\<close> resolves to \<^verbatim>\<open>undefined\<close>: neither fails.
\<close>

theorem empty_registry_outcomes:
  "syncMethod [] mname args = (Inl (Error ''No file systems attached'' None), [])
   \<and> asyncMethod [] mname [JStr ''/f'', JFun] = (Called (Some (Error ''No file systems attached.'' None)) [], [])
   \<and> open_cb [] [JStr ''/f'', JStr ''r'', JFun] = (Called (Some (Error ''No file systems attached.'' None)) [], [])
   \<and> openSync [] args = (Inr JUndefined, [])
   \<and> promiseMethod [] mname args = (Resolved JUndefined, [])"
  by (simp add: syncMethod_def asyncMethod_def open_cb_def openSync_def promiseMethod_def
      find_cb_def set_arg_def link_err_def arg_at_def)

section \<open>Properties of \<^verbatim>\<open>open\<close> and \<^verbatim>\<open>openSync\<close>\<close>

text \<open>
  Claim C3. Two entries, the first registered with \<^verbatim>\<open>{readable: false}\<close>, the second failing
  every open; the mode is \<^verbatim>\<open>r\<close>. The only entry tried fails, and yet no error comes out:
  \<^verbatim>\<open>open\<close> calls the callback with an \<^verbatim>\<open>undefined\<close> error and \<^verbatim>\<open>openSync\<close> returns
  \<^verbatim>\<open>undefined\<close>, because the skipped entry at index 0 is the one that the code takes for
  the last attempt.
\<close>

theorem open_loses_error_when_first_entry_skipped:
  "open_cb [(openingFs 3, unreadable), (failingFs ''ENOENT'', defaults)] [JStr ''/f'', JStr ''r'', JFun]
     = (Called None [], [1])
   \<and> openSync [(openingFs 3, unreadable), (failingFs ''ENOENT'', defaults)] [JStr ''/f'', JStr ''r'']
     = (Inr JUndefined, [1])"
  by (simp add: open_cb_def openSync_def openSync_try_def find_cb_def set_arg_def link_err_def
      arg_at_def skipEntry_def startsWith_def openingFs_def failingFs_def emptyFs_def
      unreadable_def defaults_def)

lemma chain_set_prev: "chain (set_prev e lastError) = message e # chain_of lastError"
  by (cases e; cases lastError) (simp_all add: chain_of_def)

lemma skipEntry_cases: "skipEntry (JStr s) opts = Inr True \<or> skipEntry (JStr s) opts = Inr False"
  by (auto simp: skipEntry_def)

lemma openSync_from_skip:
  "skipEntry flags (snd (fss ! i)) = Inr True \<Longrightarrow>
     openSync_from fss flags args (Suc i) lastError log = openSync_from fss flags args i lastError log"
  by (cases "fss ! i") simp

lemma openSync_from_try:
  "skipEntry flags (snd (fss ! i)) = Inr False \<Longrightarrow>
     openSync_from fss flags args (Suc i) lastError log =
       (case openSync_try (fst (fss ! i)) args i log of
          (Inr v, log') \<Rightarrow> (Inr v, log')
        | (Inl err, log') \<Rightarrow>
            if i = 0 then (Inl (set_prev err lastError), log')
            else openSync_from fss flags args i (Some (set_prev err lastError)) log')"
  by (cases "fss ! i") (simp add: Let_def split: prod.splits sum.splits)

lemma openSync_try_log:
  "snd (openSync_try fs args i log) = log \<or> snd (openSync_try fs args i log) = log @ [i]"
  by (simp add: openSync_try_def split: option.splits)

lemma openSync_from_log:
  "set (snd (openSync_from fss (JStr s) args k lastError log))
     \<subseteq> set log \<union> {i. i < k \<and> skipEntry (JStr s) (snd (fss ! i)) = Inr False}"
proof (induction k arbitrary: lastError log)
  case 0
  show ?case by simp
next
  case (Suc i)
  show ?case
  proof (cases "skipEntry (JStr s) (snd (fss ! i)) = Inr True")
    case True
    have "set (snd (openSync_from fss (JStr s) args i lastError log))
            \<subseteq> set log \<union> {j. j < i \<and> skipEntry (JStr s) (snd (fss ! j)) = Inr False}"
      by (rule Suc.IH)
    then show ?thesis
      unfolding openSync_from_skip[OF True] by (auto simp: less_Suc_eq)
  next
    case False
    with skipEntry_cases[of s "snd (fss ! i)"]
    have ns: "skipEntry (JStr s) (snd (fss ! i)) = Inr False" by simp
    obtain a log' where t: "openSync_try (fst (fss ! i)) args i log = (a, log')"
      by (cases "openSync_try (fst (fss ! i)) args i log")
    with openSync_try_log[of "fst (fss ! i)" args i log]
    have l: "set log' \<subseteq> set log \<union> {i}" by auto
    have ih: "\<And>le. set (snd (openSync_from fss (JStr s) args i le log'))
            \<subseteq> set log' \<union> {j. j < i \<and> skipEntry (JStr s) (snd (fss ! j)) = Inr False}"
      by (rule Suc.IH)
    show ?thesis
      unfolding openSync_from_try[OF ns] t
      using l ih ns by (cases a) (auto simp: less_Suc_eq split: if_splits)
  qed
qed

lemma attempted_take_Suc:
  "i < length fss \<Longrightarrow>
     length (attempted s (take (Suc i) fss))
       = length (attempted s (take i fss)) + (if skipEntry (JStr s) (snd (fss ! i)) = Inr False then 1 else 0)"
  by (simp add: take_Suc_conv_app_nth attempted_def split: prod.splits)

lemma openSync_from_chain:
  "openSync_from fss (JStr s) args k lastError log = (Inl e, log') \<Longrightarrow> k \<le> length fss \<Longrightarrow>
     length (chain e) = length (chain_of lastError) + length (attempted s (take k fss))"
proof (induction k arbitrary: lastError log)
  case 0
  then show ?case by simp
next
  case (Suc i)
  from Suc.prems(2) have i: "i < length fss" by simp
  show ?case
  proof (cases "skipEntry (JStr s) (snd (fss ! i)) = Inr True")
    case True
    with Suc.prems(1) have "openSync_from fss (JStr s) args i lastError log = (Inl e, log')"
      by (simp only: openSync_from_skip)
    with Suc.IH i True show ?thesis
      by (simp add: attempted_take_Suc)
  next
    case False
    with skipEntry_cases[of s "snd (fss ! i)"]
    have ns: "skipEntry (JStr s) (snd (fss ! i)) = Inr False" by simp
    obtain a l1 where t: "openSync_try (fst (fss ! i)) args i log = (a, l1)"
      by (cases "openSync_try (fst (fss ! i)) args i log")
    from Suc.prems(1) obtain err where a: "a = Inl err"
      unfolding openSync_from_try[OF ns] t by (cases a) auto
    have cnt: "length (attempted s (take (Suc i) fss)) = Suc (length (attempted s (take i fss)))"
      using attempted_take_Suc[OF i, of s] ns by simp
    show ?thesis
    proof (cases "i = 0")
      case True
      with Suc.prems(1) have "e = set_prev err lastError"
        unfolding openSync_from_try[OF ns] t a by simp
      then show ?thesis
        unfolding cnt using True by (simp add: chain_set_prev attempted_def)
    next
      case False
      with Suc.prems(1) have "openSync_from fss (JStr s) args i (Some (set_prev err lastError)) l1 = (Inl e, log')"
        unfolding openSync_from_try[OF ns] t a by simp
      from Suc.IH[OF this] i show ?thesis
        unfolding cnt by (simp add: chain_set_prev chain_of_def)
    qed
  qed
qed

lemma openSync_from_update:
  "j < length fss \<Longrightarrow> skipEntry flags (snd (fss ! j)) = Inr True \<Longrightarrow>
     openSync_from (fss[j := (fs', snd (fss ! j))]) flags args k lastError log
       = openSync_from fss flags args k lastError log"
proof (induction k arbitrary: lastError log)
  case 0
  show ?case by simp
next
  case (Suc i)
  show ?case
  proof (cases "i = j")
    case True
    with Suc show ?thesis by (cases "fss ! j") simp
  next
    case False
    then have "j \<noteq> i" by simp
    with Suc show ?thesis
      by (auto simp: Let_def split: prod.splits sum.splits bool.splits)
  qed
qed

lemma link_err_None: "link_err None lastError = (None, lastError)"
  by (simp add: link_err_def)

lemma link_err_Some: "link_err (Some e) lastError = (Some (set_prev e lastError), Some (set_prev e lastError))"
  by (simp add: link_err_def)

lemma open_iterate_skip:
  "skipEntry flags (snd (fss ! j)) = Inr True \<Longrightarrow>
     open_iterate fss flags args cb (Suc j) err lastError log
       = open_iterate fss flags args cb j None (snd (link_err err lastError)) log"
  by (cases "fss ! j"; cases "link_err err lastError") simp

lemma open_iterate_try:
  "skipEntry flags (snd (fss ! j)) = Inr False \<Longrightarrow>
     open_iterate fss flags args cb (Suc j) err lastError log =
       (case open_fn (fst (fss ! j)) of
          None \<Rightarrow> open_iterate fss flags args cb j (Some (Error ''Method not supported: open'' None))
                    (snd (link_err err lastError)) log
        | Some func \<Rightarrow>
            (case func args of
               AThrows e \<Rightarrow> open_iterate fss flags args cb j (Some e) (snd (link_err err lastError)) (log @ [j])
             | ACalls None rest \<Rightarrow> (if cb then Called None rest else NotCalled, log @ [j])
             | ACalls (Some e) rest \<Rightarrow>
                 open_iterate fss flags args cb j (Some e) (snd (link_err err lastError)) (log @ [j])
             | ANever \<Rightarrow> (NotCalled, log @ [j])))"
  by (cases "fss ! j"; cases "link_err err lastError")
     (simp split: option.splits async_behaviour.splits)

lemma open_iterate_log:
  "set (snd (open_iterate fss (JStr s) args cb k err lastError log))
     \<subseteq> set log \<union> {i. i < k \<and> skipEntry (JStr s) (snd (fss ! i)) = Inr False}"
proof (induction k arbitrary: err lastError log)
  case 0
  show ?case by (simp split: prod.splits)
next
  case (Suc j)
  show ?case
  proof (cases "skipEntry (JStr s) (snd (fss ! j)) = Inr True")
    case True
    show ?thesis
      unfolding open_iterate_skip[OF True]
      using Suc.IH[of None "snd (link_err err lastError)" log] by (auto simp: less_Suc_eq)
  next
    case False
    with skipEntry_cases[of s "snd (fss ! j)"]
    have ns: "skipEntry (JStr s) (snd (fss ! j)) = Inr False" by simp
    have "(\<exists>e l. (l = log \<or> l = log @ [j])
              \<and> open_iterate fss (JStr s) args cb (Suc j) err lastError log
                  = open_iterate fss (JStr s) args cb j e (snd (link_err err lastError)) l)
          \<or> snd (open_iterate fss (JStr s) args cb (Suc j) err lastError log) = log @ [j]"
      unfolding open_iterate_try[OF ns]
      by (auto split: option.splits async_behaviour.splits)
    then show ?thesis
    proof
      assume "\<exists>e l. (l = log \<or> l = log @ [j])
              \<and> open_iterate fss (JStr s) args cb (Suc j) err lastError log
                  = open_iterate fss (JStr s) args cb j e (snd (link_err err lastError)) l"
      then obtain e l where l: "l = log \<or> l = log @ [j]"
        and eq: "open_iterate fss (JStr s) args cb (Suc j) err lastError log
                  = open_iterate fss (JStr s) args cb j e (snd (link_err err lastError)) l"
        by blast
      have "set (snd (open_iterate fss (JStr s) args cb j e (snd (link_err err lastError)) l))
            \<subseteq> set l \<union> {i. i < j \<and> skipEntry (JStr s) (snd (fss ! i)) = Inr False}"
        by (rule Suc.IH)
      with l ns show ?thesis
        unfolding eq by (auto simp: less_Suc_eq)
    next
      assume "snd (open_iterate fss (JStr s) args cb (Suc j) err lastError log) = log @ [j]"
      with ns show ?thesis by auto
    qed
  qed
qed

lemma open_iterate_chain:
  "open_iterate fss (JStr s) args cb k err lastError log = (Called (Some e) rest, log') \<Longrightarrow>
   k \<le> length fss \<Longrightarrow> fss \<noteq> [] \<Longrightarrow>
     length (chain e) = length (chain_of (snd (link_err err lastError))) + length (attempted s (take k fss))"
proof (induction k arbitrary: err lastError log)
  case 0
  then show ?case
    by (cases err) (auto simp: link_err_def chain_set_prev attempted_def chain_of_def split: if_splits)
next
  case (Suc j)
  from Suc.prems(2) have j: "j < length fss" by simp
  let ?L = "snd (link_err err lastError)"
  show ?case
  proof (cases "skipEntry (JStr s) (snd (fss ! j)) = Inr True")
    case True
    from Suc.prems(1) have "open_iterate fss (JStr s) args cb j None ?L log = (Called (Some e) rest, log')"
      unfolding open_iterate_skip[OF True] .
    from Suc.IH[OF this] j Suc.prems(3) True show ?thesis
      by (simp add: attempted_take_Suc link_err_None)
  next
    case False
    with skipEntry_cases[of s "snd (fss ! j)"]
    have ns: "skipEntry (JStr s) (snd (fss ! j)) = Inr False" by simp
    have cnt: "length (attempted s (take (Suc j) fss)) = Suc (length (attempted s (take j fss)))"
      using attempted_take_Suc[OF j, of s] ns by simp
    from Suc.prems(1) obtain e' l' where
      rec: "open_iterate fss (JStr s) args cb j (Some e') ?L l' = (Called (Some e) rest, log')"
      unfolding open_iterate_try[OF ns]
      by (auto split: option.splits async_behaviour.splits if_splits)
    from Suc.IH[OF rec] j Suc.prems(3) show ?thesis
      unfolding cnt by (simp add: link_err_Some chain_set_prev chain_of_def)
  qed
qed

lemma open_iterate_update:
  "j < length fss \<Longrightarrow> skipEntry flags (snd (fss ! j)) = Inr True \<Longrightarrow>
     open_iterate (fss[j := (fs', snd (fss ! j))]) flags args cb k err lastError log
       = open_iterate fss flags args cb k err lastError log"
proof (induction k arbitrary: err lastError log)
  case 0
  show ?case by simp
next
  case (Suc i)
  show ?case
  proof (cases "i = j")
    case True
    with Suc show ?thesis by (cases "fss ! j") simp
  next
    case False
    then have "j \<noteq> i" by simp
    with Suc show ?thesis
      by (auto simp: Let_def split: prod.splits sum.splits bool.splits option.splits async_behaviour.splits)
  qed
qed

lemma skipEntry_by_mode:
  "(startsWith s ''r'' \<and> readable opts = Some False)
     \<or> (startsWith s ''w'' \<and> writable opts = Some False)
     \<or> (startsWith s ''a'' \<and> (readable opts = Some False \<or> writable opts = Some False))
   \<Longrightarrow> skipEntry (JStr s) opts = Inr True"
  by (auto simp: skipEntry_def)

text \<open>
  Claim C4. One entry registered with \<^verbatim>\<open>{writable: false}\<close>, and the mode \<^verbatim>\<open>w\<close>.
  \<^verbatim>\<open>openSync\<close> skips the entry, and so does \<^verbatim>\<open>open\<close> when it is given a callback. Called
  with the path and the mode alone, \<^verbatim>\<open>open\<close> finds fewer than three arguments, takes the mode
  to be \<^verbatim>\<open>r\<close>, does not skip the entry and calls its backend.
\<close>

theorem open_without_callback_ignores_mode:
  "open_cb [(openingFs 3, unwritable)] [JStr ''/f'', JStr ''w''] = (NotCalled, [0])
   \<and> open_cb [(openingFs 3, unwritable)] [JStr ''/f'', JStr ''w'', JFun] = (Called None [], [])
   \<and> openSync [(openingFs 3, unwritable)] [JStr ''/f'', JStr ''w''] = (Inr JUndefined, [])"
  by (simp add: open_cb_def openSync_def find_cb_def set_arg_def link_err_def arg_at_def
      skipEntry_def startsWith_def openingFs_def emptyFs_def unwritable_def)

text \<open>
  For the mode \<open>s\<close> that the code reads (\<^verbatim>\<open>args[1]\<close>; for \<^verbatim>\<open>open\<close> with fewer than three
  arguments, \<^verbatim>\<open>r\<close>) the filter does what it is meant to do. An entry \<open>j\<close> with
  \<^verbatim>\<open>readable: false\<close> under a mode that begins with \<^verbatim>\<open>r\<close>, with \<^verbatim>\<open>writable: false\<close>
  under one that begins with \<^verbatim>\<open>w\<close>, or with either flag \<^verbatim>\<open>false\<close> under one that begins
  with \<^verbatim>\<open>a\<close>, is skipped: its backend is not called, the outcome and the calls are the same
  whatever filesystem the entry holds, and an error that comes out has one node in its chain for
  each entry that was not skipped, none for the skipped ones.
\<close>

lemma open_skips_entries_by_mode:
  assumes "j < length fss"
      and "(startsWith s ''r'' \<and> readable (snd (fss ! j)) = Some False)
         \<or> (startsWith s ''w'' \<and> writable (snd (fss ! j)) = Some False)
         \<or> (startsWith s ''a'' \<and> (readable (snd (fss ! j)) = Some False \<or> writable (snd (fss ! j)) = Some False))"
  shows "(arg_at args 1 = JStr s \<longrightarrow>
            j \<notin> set (snd (openSync fss args))
          \<and> openSync (fss[j := (fs', snd (fss ! j))]) args = openSync fss args
          \<and> (\<forall>e. fst (openSync fss args) = Inl e \<longrightarrow> length (chain e) = length (attempted s fss)))
       \<and> ((if length args < 3 then JStr ''r'' else arg_at args 1) = JStr s \<longrightarrow>
            j \<notin> set (snd (open_cb fss args))
          \<and> open_cb (fss[j := (fs', snd (fss ! j))]) args = open_cb fss args
          \<and> (\<forall>e rest. fst (open_cb fss args) = Called (Some e) rest
                \<longrightarrow> length (chain e) = length (attempted s fss)))"
proof -
  from assms(2) have skip: "skipEntry (JStr s) (snd (fss ! j)) = Inr True"
    by (rule skipEntry_by_mode)
  from assms(1) have ne: "fss \<noteq> []" by auto
  have sync: "j \<notin> set (snd (openSync fss args))
          \<and> openSync (fss[j := (fs', snd (fss ! j))]) args = openSync fss args
          \<and> (\<forall>e. fst (openSync fss args) = Inl e \<longrightarrow> length (chain e) = length (attempted s fss))"
    if flags: "arg_at args 1 = JStr s"
  proof (intro conjI allI impI)
    have eq: "openSync fss' args = openSync_from fss' (JStr s) args (length fss') None []" for fss'
      using flags by (simp only: openSync_def)
    show "j \<notin> set (snd (openSync fss args))"
      using openSync_from_log[of fss s args "length fss" None "[]"] skip
      by (auto simp: eq)
    show "openSync (fss[j := (fs', snd (fss ! j))]) args = openSync fss args"
      using openSync_from_update[OF assms(1), of "JStr s" fs' args "length fss" None "[]"] skip
      by (simp add: eq)
    fix e assume "fst (openSync fss args) = Inl e"
    then have "openSync_from fss (JStr s) args (length fss) None [] = (Inl e, snd (openSync fss args))"
      by (simp add: eq prod_eq_iff)
    from openSync_from_chain[OF this] show "length (chain e) = length (attempted s fss)"
      by (simp add: chain_of_def)
  qed
  have cb: "j \<notin> set (snd (open_cb fss args))
          \<and> open_cb (fss[j := (fs', snd (fss ! j))]) args = open_cb fss args
          \<and> (\<forall>e rest. fst (open_cb fss args) = Called (Some e) rest
                \<longrightarrow> length (chain e) = length (attempted s fss))"
    if flags: "(if length args < 3 then JStr ''r'' else arg_at args 1) = JStr s"
  proof (intro conjI allI impI)
    obtain c l where fc: "find_cb args = (c, l)" by (cases "find_cb args")
    have eq: "open_cb fss' args = open_iterate fss' (JStr s) (set_arg args l JFun) c (length fss') None None []"
      for fss'
      using flags fc by (simp only: open_cb_def Let_def prod.case)
    show "j \<notin> set (snd (open_cb fss args))"
      using open_iterate_log[of fss s "set_arg args l JFun" c "length fss" None None "[]"] skip
      by (auto simp: eq)
    show "open_cb (fss[j := (fs', snd (fss ! j))]) args = open_cb fss args"
      using open_iterate_update[OF assms(1), of "JStr s" fs' "set_arg args l JFun" c "length fss" None None "[]"] skip
      by (simp add: eq)
    fix e rest assume "fst (open_cb fss args) = Called (Some e) rest"
    then have "open_iterate fss (JStr s) (set_arg args l JFun) c (length fss) None None []
                 = (Called (Some e) rest, snd (open_cb fss args))"
      by (simp add: eq prod_eq_iff)
    from open_iterate_chain[OF this _ ne] show "length (chain e) = length (attempted s fss)"
      by (simp add: chain_of_def link_err_None)
  qed
  from sync cb show ?thesis by blast
qed

lemma open_skips_entries_by_mode_example:
  "openSync [(failingFs ''E1'', defaults), (openingFs 3, unreadable), (failingFs ''E2'', defaults)]
       [JStr ''/f'', JStr ''r'', JFun]
     = (Inl (Error ''E1'' (Some (Error ''E2'' None))), [2, 0])
   \<and> open_cb [(failingFs ''E1'', defaults), (openingFs 3, unreadable), (failingFs ''E2'', defaults)]
       [JStr ''/f'', JStr ''r'', JFun]
     = (Called (Some (Error ''E1'' (Some (Error ''E2'' None)))) [], [2, 0])
   \<and> length (attempted ''r'' [(failingFs ''E1'', defaults), (openingFs 3, unreadable), (failingFs ''E2'', defaults)]) = 2
   \<and> openSync [(failingFs ''E1'', defaults), (openingFs 7, unreadable), (failingFs ''E2'', defaults)]
       [JStr ''/f'', JStr ''r'', JFun]
     = openSync [(failingFs ''E1'', defaults), (openingFs 3, unreadable), (failingFs ''E2'', defaults)]
       [JStr ''/f'', JStr ''r'', JFun]
   \<and> open_cb [(failingFs ''E1'', defaults), (openingFs 7, unreadable), (failingFs ''E2'', defaults)]
       [JStr ''/f'', JStr ''r'', JFun]
     = open_cb [(failingFs ''E1'', defaults), (openingFs 3, unreadable), (failingFs ''E2'', defaults)]
       [JStr ''/f'', JStr ''r'', JFun]"
  using open_skips_entries_by_mode
    [where fss = "[(failingFs ''E1'', defaults), (openingFs 3, unreadable), (failingFs ''E2'', defaults)]"
       and j = 1 and s = "''r''" and args = "[JStr ''/f'', JStr ''r'', JFun]" and fs' = "openingFs 7"]
  by (simp add: openSync_def open_cb_def openSync_try_def arg_at_def find_cb_def set_arg_def
      link_err_def skipEntry_def startsWith_def attempted_def
      failingFs_def openingFs_def emptyFs_def defaults_def unreadable_def)

lemma openSync_from_all_skipped:
  "(\<forall>i<k. skipEntry flags (snd (fss ! i)) = Inr True) \<Longrightarrow>
     openSync_from fss flags args k lastError log = (Inr JUndefined, log)"
proof (induction k)
  case 0
  show ?case by simp
next
  case (Suc i)
  then show ?case by (simp del: openSync_from.simps add: openSync_from_skip)
qed

lemma open_iterate_all_skipped:
  "(\<forall>i<k. skipEntry flags (snd (fss ! i)) = Inr True) \<Longrightarrow> fss \<noteq> [] \<Longrightarrow>
     open_iterate fss flags args cb k None lastError log = (if cb then Called None [] else NotCalled, log)"
proof (induction k)
  case 0
  then show ?case by (simp add: link_err_None)
next
  case (Suc i)
  then show ?case by (simp del: open_iterate.simps add: open_iterate_skip link_err_None)
qed

text \<open>
  Claim C5. One entry registered with \<^verbatim>\<open>{readable: false}\<close>, and the mode \<^verbatim>\<open>r\<close>: the
  filter skips every entry of a registry that is not empty. The call should fail; instead
  \<^verbatim>\<open>openSync\<close> returns \<^verbatim>\<open>undefined\<close> where a descriptor is expected, and \<^verbatim>\<open>open\<close> calls the
  callback with an \<^verbatim>\<open>undefined\<close> error and no descriptor.
\<close>

theorem open_all_skipped_does_not_fail:
  "openSync [(openingFs 3, unreadable)] [JStr ''/f'', JStr ''r''] = (Inr JUndefined, [])
   \<and> open_cb [(openingFs 3, unreadable)] [JStr ''/f'', JStr ''r'', JFun] = (Called None [], [])"
  by (simp add: open_cb_def openSync_def find_cb_def set_arg_def link_err_def arg_at_def
      skipEntry_def startsWith_def openingFs_def emptyFs_def unreadable_def)

text \<open>
  The same fall-through on every registry that is not empty and every mode that makes the code
  skip all its entries: no backend is called and nothing is reported.
\<close>

lemma open_all_skipped_falls_through:
  assumes "fss \<noteq> []"
      and "\<forall>entry \<in> set fss. skipEntry (JStr s) (snd entry) = Inr True"
  shows "(arg_at args 1 = JStr s \<longrightarrow> openSync fss args = (Inr JUndefined, []))
       \<and> ((if length args < 3 then JStr ''r'' else arg_at args 1) = JStr s \<longrightarrow>
            open_cb fss args = (if fst (find_cb args) then Called None [] else NotCalled, []))"
proof -
  from assms(2) have all: "\<forall>i<length fss. skipEntry (JStr s) (snd (fss ! i)) = Inr True"
    by simp
  have "openSync fss args = (Inr JUndefined, [])" if "arg_at args 1 = JStr s"
    using that openSync_from_all_skipped[OF all] by (simp only: openSync_def)
  moreover have "open_cb fss args = (if fst (find_cb args) then Called None [] else NotCalled, [])"
    if "(if length args < 3 then JStr ''r'' else arg_at args 1) = JStr s"
    using that open_iterate_all_skipped[OF all assms(1)]
    by (cases "find_cb args") (simp only: open_cb_def Let_def prod.case fst_conv)
  ultimately show ?thesis by blast
qed

lemma open_all_skipped_falls_through_example:
  "[(openingFs 3, unreadable), (openingFs 4, unreadable)] \<noteq> []
   \<and> openSync [(openingFs 3, unreadable), (openingFs 4, unreadable)] [JStr ''/f'', JStr ''r+'', JFun]
       = (Inr JUndefined, [])
   \<and> open_cb [(openingFs 3, unreadable), (openingFs 4, unreadable)] [JStr ''/f'', JStr ''r+'', JFun]
       = (Called None [], [])"
  using open_all_skipped_falls_through
    [where fss = "[(openingFs 3, unreadable), (openingFs 4, unreadable)]" and s = "''r+''"
       and args = "[JStr ''/f'', JStr ''r+'', JFun]"]
  by (simp add: arg_at_def find_cb_def skipEntry_def startsWith_def unreadable_def)

section \<open>Properties of \<^verbatim>\<open>readdirSync\<close>\<close>

lemma readdirSync_try_fst: "fst (readdirSync_try fs args i log) = fst (readdirSync_try fs args 0 [])"
  by (simp add: readdirSync_try_def split: option.splits)

lemma visited_0: "visited fss args 0 = []"
  by (simp add: visited_def)

lemma visited_Suc: "i < length fss \<Longrightarrow> visited fss args (Suc i) = listed (fss ! i) args @ visited fss args i"
  by (simp add: visited_def take_Suc_conv_app_nth)

lemma set_all_append: "set_all (xs @ ys) r = set_all ys (set_all xs r)"
  by (simp add: set_all_def)

lemma set_all_Nil: "set_all [] r = r"
  by (simp add: set_all_def)

lemma set_all_Cons: "set_all (e # es) r = set_all es (AList.update (pathFromReaddirEntry e) e r)"
  by (simp add: set_all_def)

lemma update_not_Nil: "AList.update k v r \<noteq> []"
  by (cases r) auto

lemma set_all_eq_Nil: "set_all es r = [] \<longleftrightarrow> es = [] \<and> r = []"
proof (induction es arbitrary: r)
  case Nil
  show ?case by (simp add: set_all_Nil)
next
  case (Cons e es)
  then show ?case by (simp add: set_all_Cons update_not_Nil)
qed

lemma readdirSync_from_unreadable:
  "readable (snd (fss ! i)) = Some False \<Longrightarrow>
     readdirSync_from fss args (Suc i) lastError result log = readdirSync_from fss args i lastError result log"
  by (cases "fss ! i") simp

lemma readdirSync_from_readable:
  "readable (snd (fss ! i)) \<noteq> Some False \<Longrightarrow>
     readdirSync_from fss args (Suc i) lastError result log =
       (case readdirSync_try (fst (fss ! i)) args i log of
          (Inr entries, log') \<Rightarrow> readdirSync_from fss args i lastError (set_all entries result) log'
        | (Inl err, log') \<Rightarrow>
            if result = [] \<and> i = 0 then (Inl (set_prev err lastError), log')
            else readdirSync_from fss args i (Some (set_prev err lastError)) result log')"
  by (cases "fss ! i") (simp add: Let_def split: prod.splits sum.splits)

lemma listed_unreadable: "readable (snd entry) = Some False \<Longrightarrow> listed entry args = []"
  by (simp add: listed_def)

lemma listed_readable:
  "readable (snd entry) \<noteq> Some False \<Longrightarrow> readdirSync_try (fst entry) args i log = (a, l) \<Longrightarrow>
     listed entry args = (case a of Inl err \<Rightarrow> [] | Inr entries \<Rightarrow> entries)"
  using readdirSync_try_fst[of "fst entry" args i log] by (simp add: listed_def)

lemma readdirSync_from_result:
  "readdirSync_from fss args k lastError result log = (Inr xs, log') \<Longrightarrow> k \<le> length fss \<Longrightarrow>
     xs = sortedArrayFromReaddirResult (set_all (visited fss args k) result)"
proof (induction k arbitrary: lastError result log)
  case 0
  then show ?case by (simp add: visited_0 set_all_Nil)
next
  case (Suc i)
  from Suc.prems(2) have i: "i < length fss" by simp
  show ?case
  proof (cases "readable (snd (fss ! i)) = Some False")
    case True
    with Suc.prems(1) have "readdirSync_from fss args i lastError result log = (Inr xs, log')"
      by (simp only: readdirSync_from_unreadable)
    from Suc.IH[OF this] i True show ?thesis
      by (simp add: visited_Suc listed_unreadable set_all_Nil)
  next
    case False
    obtain a l where t: "readdirSync_try (fst (fss ! i)) args i log = (a, l)"
      by (cases "readdirSync_try (fst (fss ! i)) args i log")
    note li = listed_readable[OF False t]
    show ?thesis
    proof (cases a)
      case (Inr entries)
      with Suc.prems(1) have "readdirSync_from fss args i lastError (set_all entries result) l = (Inr xs, log')"
        unfolding readdirSync_from_readable[OF False] t by simp
      from Suc.IH[OF this] i li Inr show ?thesis
        by (simp add: visited_Suc set_all_append)
    next
      case (Inl err)
      with Suc.prems(1) have "readdirSync_from fss args i (Some (set_prev err lastError)) result l = (Inr xs, log')"
        unfolding readdirSync_from_readable[OF False] t by (simp split: if_splits)
      from Suc.IH[OF this] i li Inl show ?thesis
        by (simp add: visited_Suc set_all_Nil)
    qed
  qed
qed


lemma readdirSync_from_error_iff:
  "k \<le> length fss \<Longrightarrow>
     isl (fst (readdirSync_from fss args k lastError result log)) \<longleftrightarrow>
       (0 < k \<and> result = [] \<and> visited fss args k = []
        \<and> readable (snd (fss ! 0)) \<noteq> Some False
        \<and> isl (fst (readdirSync_try (fst (fss ! 0)) args 0 [])))"
proof (induction k arbitrary: lastError result log)
  case 0
  show ?case by simp
next
  case (Suc i)
  then have i: "i < length fss" and ile: "i \<le> length fss" by simp_all
  note ih = Suc.IH[OF ile]
  show ?case
  proof (cases "readable (snd (fss ! i)) = Some False")
    case True
    show ?thesis
      unfolding readdirSync_from_unreadable[OF True] ih
      using True i by (cases "i = 0") (auto simp: visited_Suc listed_unreadable)
  next
    case False
    obtain a l where t: "readdirSync_try (fst (fss ! i)) args i log = (a, l)"
      by (cases "readdirSync_try (fst (fss ! i)) args i log")
    note li = listed_readable[OF False t]
    from t have a: "fst (readdirSync_try (fst (fss ! i)) args 0 []) = a"
      using readdirSync_try_fst[of "fst (fss ! i)" args i log] by simp
    show ?thesis
    proof (cases a)
      case (Inr entries)
      show ?thesis
        unfolding readdirSync_from_readable[OF False] t
        using Inr li i a ih[of lastError "set_all entries result" l]
        by (cases "i = 0") (auto simp: visited_Suc set_all_eq_Nil visited_0)
    next
      case (Inl err)
      show ?thesis
        unfolding readdirSync_from_readable[OF False] t
        using Inl li i a False ih[of "Some (set_prev err lastError)" result l]
        by (cases "i = 0") (auto simp: visited_Suc visited_0)
    qed
  qed
qed

lemma update_keyed_set: "set (AList.update k v r) \<subseteq> insert (k, v) (set r)"
  by (induction r) auto

lemma keyed_update: "keyed r \<Longrightarrow> keyed (AList.update (pathFromReaddirEntry v) v r)"
  using update_keyed_set[of "pathFromReaddirEntry v" v r]
  by (auto simp: keyed_def distinct_update)

lemma keyed_set_all: "keyed r \<Longrightarrow> keyed (set_all es r)"
proof (induction es arbitrary: r)
  case Nil
  then show ?case by (simp add: set_all_Nil)
next
  case (Cons e es)
  then show ?case by (simp add: set_all_Cons keyed_update)
qed

lemma keyed_Nil: "keyed []"
  by (simp add: keyed_def)

lemma keyed_lookup: "keyed r \<Longrightarrow> k \<in> fst ` set r \<Longrightarrow> \<exists>v. map_of r k = Some v \<and> pathFromReaddirEntry v = k"
proof -
  assume kr: "keyed r" and "k \<in> fst ` set r"
  then obtain v where "map_of r k = Some v"
    by (metis domIff dom_map_of_conv_image_fst not_Some_eq)
  moreover from this have "(k, v) \<in> set r" by (rule map_of_SomeD)
  ultimately show ?thesis using kr by (auto simp: keyed_def)
qed

lemma names_of_lookups:
  "keyed r \<Longrightarrow> set ks \<subseteq> fst ` set r \<Longrightarrow>
     map pathFromReaddirEntry
       (concat (map (\<lambda>key. case map_of r key of None \<Rightarrow> [] | Some v \<Rightarrow> [v]) ks)) = ks"
proof (induction ks)
  case Nil
  show ?case by simp
next
  case (Cons k ks)
  from Cons.prems keyed_lookup[of r k] obtain v where "map_of r k = Some v" "pathFromReaddirEntry v = k"
    by auto
  with Cons show ?case by simp
qed

lemma find_of_lookups:
  "keyed r \<Longrightarrow> set ks \<subseteq> fst ` set r \<Longrightarrow>
     find (\<lambda>x. pathFromReaddirEntry x = n)
       (concat (map (\<lambda>key. case map_of r key of None \<Rightarrow> [] | Some v \<Rightarrow> [v]) ks))
     = (if n \<in> set ks then map_of r n else None)"
proof (induction ks)
  case Nil
  show ?case by simp
next
  case (Cons k ks)
  from Cons.prems keyed_lookup[of r k] obtain v where "map_of r k = Some v" "pathFromReaddirEntry v = k"
    by auto
  with Cons show ?case by auto
qed

lemma sortedArray_names:
  "keyed r \<Longrightarrow> map pathFromReaddirEntry (sortedArrayFromReaddirResult r) = sort (map fst r)"
  unfolding sortedArrayFromReaddirResult_def by (rule names_of_lookups) simp_all

lemma sortedArray_find:
  "keyed r \<Longrightarrow> find (\<lambda>x. pathFromReaddirEntry x = n) (sortedArrayFromReaddirResult r) = map_of r n"
proof -
  assume k: "keyed r"
  have "map_of r n = None" if "n \<notin> fst ` set r"
    using that by (simp add: map_of_eq_None_iff)
  then show ?thesis
    unfolding sortedArrayFromReaddirResult_def
    by (subst find_of_lookups[OF k]) auto
qed

lemma map_of_set_all:
  "map_of (set_all es r) = map_of r ++ map_of (rev (map (\<lambda>e. (pathFromReaddirEntry e, e)) es))"
proof (induction es arbitrary: r)
  case Nil
  show ?case by (simp add: set_all_Nil)
next
  case (Cons e es)
  show ?case
    by (rule ext) (simp add: set_all_Cons Cons.IH update_conv' map_add_def split: option.splits)
qed

lemma map_of_rev_last:
  "map_of (rev (map (\<lambda>e. (pathFromReaddirEntry e, e)) es)) n
     = (if filter (\<lambda>x. pathFromReaddirEntry x = n) es = [] then None
        else Some (last (filter (\<lambda>x. pathFromReaddirEntry x = n) es)))"
  by (induction es rule: rev_induct) auto

lemma filter_visited_Nil:
  "k \<le> length fss \<Longrightarrow> (\<forall>i<k. filter P (listed (fss ! i) args) = []) \<Longrightarrow>
     filter P (visited fss args k) = []"
proof (induction k)
  case 0
  show ?case by (simp add: visited_0)
next
  case (Suc k)
  then show ?case by (simp add: visited_Suc)
qed

lemma last_filter_visited:
  "j < k \<Longrightarrow> k \<le> length fss \<Longrightarrow> (\<forall>i<j. filter P (listed (fss ! i) args) = []) \<Longrightarrow>
   filter P (listed (fss ! j) args) \<noteq> [] \<Longrightarrow>
     filter P (visited fss args k) \<noteq> []
     \<and> last (filter P (visited fss args k)) = last (filter P (listed (fss ! j) args))"
proof (induction k)
  case 0
  then show ?case by simp
next
  case (Suc k)
  show ?case
  proof (cases "j = k")
    case True
    with Suc.prems filter_visited_Nil[of k fss P args] show ?thesis
      by (simp add: visited_Suc)
  next
    case False
    with Suc.prems have "j < k" "k \<le> length fss" by simp_all
    from Suc.IH[OF this Suc.prems(3,4)] Suc.prems(2) show ?thesis
      by (simp add: visited_Suc)
  qed
qed

text \<open>
  Claim C6. A listing that \<^verbatim>\<open>readdirSync\<close> returns is sorted by name and has no name twice;
  and a name that entry \<open>j\<close> lists and no entry registered before \<open>j\<close> lists is represented by
  what entry \<open>j\<close> reported under it (the last such item, should its listing repeat the name),
  whatever the entries registered later report: the earliest-registered filesystem that has the
  name wins.
\<close>

theorem readdirSync_sorted_lowest_priority_wins:
  assumes "fst (readdirSync fss args) = Inr xs"
  shows "sorted (map pathFromReaddirEntry xs) \<and> distinct (map pathFromReaddirEntry xs)
       \<and> (\<forall>j<length fss. \<forall>e \<in> set (listed (fss ! j) args).
             (\<forall>i<j. pathFromReaddirEntry e \<notin> pathFromReaddirEntry ` set (listed (fss ! i) args)) \<longrightarrow>
             find (\<lambda>x. pathFromReaddirEntry x = pathFromReaddirEntry e) xs
               = Some (last (filter (\<lambda>x. pathFromReaddirEntry x = pathFromReaddirEntry e)
                                    (listed (fss ! j) args))))"
proof -
  let ?r = "set_all (visited fss args (length fss)) []"
  from assms have "readdirSync_from fss args (length fss) None [] [] = (Inr xs, snd (readdirSync fss args))"
    by (simp add: readdirSync_def prod_eq_iff)
  from readdirSync_from_result[OF this] have xs: "xs = sortedArrayFromReaddirResult ?r"
    by simp
  have k: "keyed ?r" by (rule keyed_set_all[OF keyed_Nil])
  have names: "map pathFromReaddirEntry xs = sort (map fst ?r)"
    unfolding xs by (rule sortedArray_names[OF k])
  have d: "distinct (map fst ?r)" using k by (simp add: keyed_def)
  have lowest: "find (\<lambda>x. pathFromReaddirEntry x = pathFromReaddirEntry e) xs
               = Some (last (filter (\<lambda>x. pathFromReaddirEntry x = pathFromReaddirEntry e)
                                    (listed (fss ! j) args)))"
    if j: "j < length fss" and e: "e \<in> set (listed (fss ! j) args)"
      and above: "\<forall>i<j. pathFromReaddirEntry e \<notin> pathFromReaddirEntry ` set (listed (fss ! i) args)"
    for j e
  proof -
    let ?P = "\<lambda>x. pathFromReaddirEntry x = pathFromReaddirEntry e"
    from e have ne: "filter ?P (listed (fss ! j) args) \<noteq> []"
      by (auto simp: filter_empty_conv)
    have em: "\<forall>i<j. filter ?P (listed (fss ! i) args) = []"
    proof (intro allI impI)
      fix i assume "i < j"
      with above have "pathFromReaddirEntry e \<notin> pathFromReaddirEntry ` set (listed (fss ! i) args)"
        by simp
      then have "\<forall>x \<in> set (listed (fss ! i) args). pathFromReaddirEntry x \<noteq> pathFromReaddirEntry e"
        by (metis imageI)
      then show "filter ?P (listed (fss ! i) args) = []"
        by (simp add: filter_empty_conv)
    qed
    from last_filter_visited[where k = "length fss", OF j _ em ne]
    have v: "filter ?P (visited fss args (length fss)) \<noteq> []"
      "last (filter ?P (visited fss args (length fss))) = last (filter ?P (listed (fss ! j) args))"
      by simp_all
    have "find ?P xs = map_of ?r (pathFromReaddirEntry e)"
      unfolding xs by (rule sortedArray_find[OF k])
    also have "\<dots> = Some (last (filter ?P (listed (fss ! j) args)))"
      using v by (simp add: map_of_set_all map_of_rev_last)
    finally show ?thesis .
  qed
  from names d lowest show ?thesis by simp
qed

theorem readdirSync_sorted_lowest_priority_wins_witness:
  "fst (readdirSync [(listingFs [Dirent ''a'' 1, Dirent ''b'' 1], defaults),
                     (listingFs [Dirent ''c'' 2, Dirent ''b'' 2], defaults)] [JStr ''/d''])
     = Inr [Dirent ''a'' 1, Dirent ''b'' 1, Dirent ''c'' 2]
   \<and> sorted (map pathFromReaddirEntry [Dirent ''a'' 1, Dirent ''b'' 1, Dirent ''c'' 2])
   \<and> distinct (map pathFromReaddirEntry [Dirent ''a'' 1, Dirent ''b'' 1, Dirent ''c'' 2])
   \<and> find (\<lambda>x. pathFromReaddirEntry x = ''b'') [Dirent ''a'' 1, Dirent ''b'' 1, Dirent ''c'' 2]
       = Some (Dirent ''b'' 1)"
  using readdirSync_sorted_lowest_priority_wins
    [where fss = "[(listingFs [Dirent ''a'' 1, Dirent ''b'' 1], defaults),
                   (listingFs [Dirent ''c'' 2, Dirent ''b'' 2], defaults)]"
       and args = "[JStr ''/d'']" and xs = "[Dirent ''a'' 1, Dirent ''b'' 1, Dirent ''c'' 2]",
     THEN conjunct1]
  by (simp add: readdirSync_def readdirSync_try_def set_all_def sortedArrayFromReaddirResult_def
      listingFs_def emptyFs_def defaults_def)



section \<open>Properties of the stream factory\<close>

lemma createReadStream_try_fst:
  "fst (createReadStream_try fs i path log) = fst (createReadStream_try fs i' path log')"
  by (simp add: createReadStream_try_def Let_def split: option.splits prod.splits sum.splits bool.splits)

lemma createReadStream_try_log:
  "\<exists>new. snd (createReadStream_try fs i path log) = log @ new \<and> (\<forall>c \<in> set new. call_index c = i)"
  by (auto simp: createReadStream_try_def Let_def split: option.splits prod.splits sum.splits bool.splits)

lemma createReadStream_try_success:
  "createReadStream_fn fs = Some create \<Longrightarrow> create path = Inr (Some stream) \<Longrightarrow>
   (case existsSync_fn fs of None \<Rightarrow> True | Some ex \<Rightarrow> ex path = Inr True) \<Longrightarrow>
     fst (createReadStream_try fs i path log) = Inr stream
     \<and> CallCreateReadStream i \<in> set (snd (createReadStream_try fs i path log))"
  by (auto simp: createReadStream_try_def Let_def split: option.splits)

lemma createReadStream_loop_first:
  "j < length entries \<Longrightarrow> readable (snd (entries ! j)) \<noteq> Some False \<Longrightarrow>
   fst (createReadStream_try (fst (entries ! j)) (i + j) path []) = Inr stream \<Longrightarrow>
   (\<forall>k<j. readable (snd (entries ! k)) = Some False
          \<or> isl (fst (createReadStream_try (fst (entries ! k)) (i + k) path []))) \<Longrightarrow>
   (\<forall>c \<in> set log. call_index c \<le> i + j) \<Longrightarrow>
     fst (createReadStream_loop entries i path lastError cls log) = Inr stream
     \<and> fst (snd (createReadStream_loop entries i path lastError cls log))
         = ClassOf (ReadStream_cls (fst (entries ! j)))
     \<and> (\<forall>c \<in> set (snd (snd (createReadStream_loop entries i path lastError cls log))). call_index c \<le> i + j)
     \<and> set (snd (createReadStream_try (fst (entries ! j)) (i + j) path []))
         \<subseteq> set (snd (snd (createReadStream_loop entries i path lastError cls log)))"
proof (induction entries arbitrary: i j lastError log)
  case Nil
  then show ?case by simp
next
  case (Cons entry entries)
  obtain fs opts where entry: "entry = (fs, opts)" by (cases entry)
  obtain a l where t: "createReadStream_try fs i path log = (a, l)"
    by (cases "createReadStream_try fs i path log")
  from createReadStream_try_log[of fs i path log] t obtain new where
    l: "l = log @ new" "\<forall>c \<in> set new. call_index c = i" by auto
  have a: "fst (createReadStream_try fs i path []) = a"
    using createReadStream_try_fst[of fs i path "[]" i log] t by simp
  show ?case
  proof (cases j)
    case 0
    have sub: "set (snd (createReadStream_try fs i path [])) \<subseteq> set l"
      using t by (auto simp: createReadStream_try_def Let_def split: option.splits prod.splits sum.splits bool.splits)
    from Cons.prems 0 entry a have "a = Inr stream" "readable opts \<noteq> Some False" by simp_all
    with Cons.prems(5) 0 entry t l sub show ?thesis by auto
  next
    case (Suc j')
    from Cons.prems Suc have p: "j' < length entries" "readable (snd (entries ! j')) \<noteq> Some False"
      "fst (createReadStream_try (fst (entries ! j')) (Suc i + j') path []) = Inr stream"
      "\<forall>k<j'. readable (snd (entries ! k)) = Some False
          \<or> isl (fst (createReadStream_try (fst (entries ! k)) (Suc i + k) path []))"
      by auto
    from Cons.prems(4) Suc entry have first: "readable opts = Some False \<or> isl a"
      using a by (auto dest: spec[of _ 0])
    have lg: "\<forall>c \<in> set log. call_index c \<le> Suc i + j'" using Cons.prems(5) Suc by simp
    have lg': "\<forall>c \<in> set l. call_index c \<le> Suc i + j'" using lg l by auto
    show ?thesis
    proof (cases "readable opts = Some False")
      case True
      with Cons.IH[OF p lg, where lastError = lastError] Suc entry show ?thesis by simp
    next
      case False
      with first obtain err where "a = Inl err" by (cases a) auto
      with Cons.IH[OF p lg', where lastError = "Some err"] Suc entry False t show ?thesis by simp
    qed
  qed
qed

lemma createWriteStream_try_fst:
  "fst (createWriteStream_try fs i path (options\<lparr>opt_fs := x\<rparr>) log)
     = fst (createWriteStream_try fs i path options log')"
  by (simp add: createWriteStream_try_def Let_def split: option.splits sum.splits)

lemma createWriteStream_try_fst_log:
  "fst (createWriteStream_try fs i path options log) = fst (createWriteStream_try fs i path options log')"
  by (simp add: createWriteStream_try_def Let_def split: option.splits sum.splits)

lemma createWriteStream_try_effect:
  "(createWriteStream_fn fs = None
      \<and> snd (createWriteStream_try fs i path options log) = (options, log))
   \<or> (createWriteStream_fn fs \<noteq> None
      \<and> snd (createWriteStream_try fs i path options log)
          = (options\<lparr>opt_fs := Some (UnionFs i)\<rparr>,
             log @ [CallCreateWriteStream i (options\<lparr>opt_fs := Some (UnionFs i)\<rparr>)]))"
  by (auto simp: createWriteStream_try_def Let_def split: option.splits sum.splits)

lemma createWriteStream_try_success:
  "createWriteStream_fn fs = Some create \<Longrightarrow>
   create path (options\<lparr>opt_fs := Some (UnionFs i)\<rparr>) = Inr (Some stream) \<Longrightarrow>
     fst (createWriteStream_try fs i path options log) = Inr stream"
  by (simp add: createWriteStream_try_def Let_def)

lemma createWriteStream_loop_first:
  "j < length entries \<Longrightarrow> writable (snd (entries ! j)) \<noteq> Some False \<Longrightarrow>
   fst (createWriteStream_try (fst (entries ! j)) (i + j) path options []) = Inr stream \<Longrightarrow>
   (\<forall>k<j. writable (snd (entries ! k)) = Some False
          \<or> isl (fst (createWriteStream_try (fst (entries ! k)) (i + k) path options []))) \<Longrightarrow>
   (\<forall>c \<in> set log. call_index c \<le> i + j) \<Longrightarrow>
     fst (createWriteStream_loop entries i path options lastError cls log) = Inr stream
     \<and> fst (snd (snd (createWriteStream_loop entries i path options lastError cls log)))
         = ClassOf (WriteStream_cls (fst (entries ! j)))
     \<and> (\<forall>c \<in> set (snd (snd (snd (createWriteStream_loop entries i path options lastError cls log)))).
           call_index c \<le> i + j)"
proof (induction entries arbitrary: i j options lastError log)
  case Nil
  then show ?case by simp
next
  case (Cons entry entries)
  obtain fs opts where entry: "entry = (fs, opts)" by (cases entry)
  obtain a o' l where t: "createWriteStream_try fs i path options log = (a, o', l)"
    by (cases "createWriteStream_try fs i path options log")
  from createWriteStream_try_effect[of fs i path options log] t
  have eff: "(o' = options \<and> l = log)
     \<or> (o' = options\<lparr>opt_fs := Some (UnionFs i)\<rparr>
        \<and> l = log @ [CallCreateWriteStream i (options\<lparr>opt_fs := Some (UnionFs i)\<rparr>)])"
    by auto
  have a: "fst (createWriteStream_try fs i path options []) = a"
    using createWriteStream_try_fst_log[of fs i path options "[]" log] t by simp
  have same: "fst (createWriteStream_try f k path o' []) = fst (createWriteStream_try f k path options [])" for f k
    using eff createWriteStream_try_fst[where fs = f and i = k and path = path and options = options
        and x = "Some (UnionFs i)" and log = "[]" and log' = "[]"] by auto
  show ?case
  proof (cases j)
    case 0
    from Cons.prems 0 entry a have "a = Inr stream" "writable opts \<noteq> Some False" by simp_all
    with Cons.prems(5) 0 entry t eff show ?thesis by auto
  next
    case (Suc j')
    from Cons.prems Suc have p: "j' < length entries" "writable (snd (entries ! j')) \<noteq> Some False"
      "fst (createWriteStream_try (fst (entries ! j')) (Suc i + j') path options []) = Inr stream"
      "\<forall>k<j'. writable (snd (entries ! k)) = Some False
          \<or> isl (fst (createWriteStream_try (fst (entries ! k)) (Suc i + k) path options []))"
      by auto
    from p(3,4) have p': "fst (createWriteStream_try (fst (entries ! j')) (Suc i + j') path o' []) = Inr stream"
      "\<forall>k<j'. writable (snd (entries ! k)) = Some False
          \<or> isl (fst (createWriteStream_try (fst (entries ! k)) (Suc i + k) path o' []))"
      by (simp_all add: same)
    from Cons.prems(4) Suc entry have first: "writable opts = Some False \<or> isl a"
      using a by (auto dest: spec[of _ 0])
    have lg: "\<forall>c \<in> set log. call_index c \<le> Suc i + j'" using Cons.prems(5) Suc by simp
    have lg': "\<forall>c \<in> set l. call_index c \<le> Suc i + j'" using lg eff by auto
    show ?thesis
    proof (cases "writable opts = Some False")
      case True
      with Cons.IH[OF p lg, where lastError = lastError] Suc entry show ?thesis by simp
    next
      case False
      with first obtain err where "a = Inl err" by (cases a) auto
      with Cons.IH[OF p(1,2) p' lg', where lastError = "Some err"] Suc entry False t show ?thesis by simp
    qed
  qed
qed


text \<open>
  Claim C9. Two filesystems that can both serve the stream. The stream comes from the one
  registered first, the only one called; the one registered last, which has the priority, is not
  reached. A blocking operation on two filesystems that can both answer is answered by the one
  registered last.
\<close>

theorem streams_try_first_registered_entry_first:
  "createReadStream [(streamFs 10, defaults), (streamFs 20, defaults)] StrippedDefault ''/f''
     = (Inr 10, ClassOf (Some 10), [CallExistsSync 0, CallCreateReadStream 0])
   \<and> fst (createWriteStream [(streamFs 10, defaults), (streamFs 20, defaults)] StrippedDefault ''/f'' None)
     = Inr 10
   \<and> syncMethod [(answeringFs (JNum 10), defaults), (answeringFs (JNum 20), defaults)]
         ''readFileSync'' [JStr ''/f'']
     = (Inr (JNum 20), [1])"
  by (simp add: createReadStream_def createReadStream_try_def createWriteStream_def
      createWriteStream_try_def syncMethod_def syncMethod_try_def Let_def
      streamFs_def answeringFs_def emptyFs_def defaults_def)

text \<open>
  The order of the stream loops on every registry: \<^verbatim>\<open>createReadStream\<close> tries the readable
  entries, and \<^verbatim>\<open>createWriteStream\<close> the writable ones, in the order of registration, the entry
  registered first at the head. Let entry \<open>j\<close> be readable, have \<^verbatim>\<open>createReadStream\<close>, pass its
  \<^verbatim>\<open>existsSync\<close> if it has one, and yield a stream, while every entry before it is unreadable or
  fails: then that stream is returned, the class of entry \<open>j\<close> is recorded, entry \<open>j\<close> was called
  and no entry after \<open>j\<close> was. The same holds for writing, with \<^verbatim>\<open>writable\<close>, without an
  existence check, and with the options as entry \<open>j\<close> receives them.
\<close>

lemma streams_served_by_first_registered:
  "(j < length fss \<and> readable (snd (fss ! j)) \<noteq> Some False
      \<and> createReadStream_fn (fst (fss ! j)) = Some create \<and> create path = Inr (Some stream)
      \<and> (case existsSync_fn (fst (fss ! j)) of None \<Rightarrow> True | Some ex \<Rightarrow> ex path = Inr True)
      \<and> (\<forall>i<j. readable (snd (fss ! i)) = Some False
                \<or> isl (fst (createReadStream_try (fst (fss ! i)) i path [])))
    \<longrightarrow> fst (createReadStream fss cls path) = Inr stream
        \<and> fst (snd (createReadStream fss cls path)) = ClassOf (ReadStream_cls (fst (fss ! j)))
        \<and> CallCreateReadStream j \<in> set (snd (snd (createReadStream fss cls path)))
        \<and> (\<forall>c \<in> set (snd (snd (createReadStream fss cls path))). call_index c \<le> j))
   \<and> (j < length fss \<and> writable (snd (fss ! j)) \<noteq> Some False
      \<and> createWriteStream_fn (fst (fss ! j)) = Some wcreate
      \<and> wcreate path (options\<lparr>opt_fs := Some (UnionFs j)\<rparr>) = Inr (Some stream)
      \<and> (\<forall>i<j. writable (snd (fss ! i)) = Some False
                \<or> isl (fst (createWriteStream_try (fst (fss ! i)) i path options [])))
    \<longrightarrow> fst (createWriteStream fss cls path (Some options)) = Inr stream
        \<and> fst (snd (snd (createWriteStream fss cls path (Some options))))
            = ClassOf (WriteStream_cls (fst (fss ! j)))
        \<and> (\<forall>c \<in> set (snd (snd (snd (createWriteStream fss cls path (Some options))))). call_index c \<le> j))"
proof -
  have rd: "fst (createReadStream fss cls path) = Inr stream
        \<and> fst (snd (createReadStream fss cls path)) = ClassOf (ReadStream_cls (fst (fss ! j)))
        \<and> CallCreateReadStream j \<in> set (snd (snd (createReadStream fss cls path)))
        \<and> (\<forall>c \<in> set (snd (snd (createReadStream fss cls path))). call_index c \<le> j)"
    if j: "j < length fss" and r: "readable (snd (fss ! j)) \<noteq> Some False"
      and c: "createReadStream_fn (fst (fss ! j)) = Some create" "create path = Inr (Some stream)"
        "case existsSync_fn (fst (fss ! j)) of None \<Rightarrow> True | Some ex \<Rightarrow> ex path = Inr True"
      and before: "\<forall>i<j. readable (snd (fss ! i)) = Some False
                \<or> isl (fst (createReadStream_try (fst (fss ! i)) i path []))"
  proof -
    from createReadStream_try_success[OF c, of j "[]"]
    have s: "fst (createReadStream_try (fst (fss ! j)) (0 + j) path []) = Inr stream"
      and m: "CallCreateReadStream j \<in> set (snd (createReadStream_try (fst (fss ! j)) (0 + j) path []))"
      by simp_all
    from before have b: "\<forall>k<j. readable (snd (fss ! k)) = Some False
          \<or> isl (fst (createReadStream_try (fst (fss ! k)) (0 + k) path []))"
      by simp
    from createReadStream_loop_first[OF j r s b, of "[]" None cls] m
    show ?thesis by (auto simp: createReadStream_def)
  qed
  have wr: "fst (createWriteStream fss cls path (Some options)) = Inr stream
        \<and> fst (snd (snd (createWriteStream fss cls path (Some options))))
            = ClassOf (WriteStream_cls (fst (fss ! j)))
        \<and> (\<forall>c \<in> set (snd (snd (snd (createWriteStream fss cls path (Some options))))). call_index c \<le> j)"
    if j: "j < length fss" and w: "writable (snd (fss ! j)) \<noteq> Some False"
      and c: "createWriteStream_fn (fst (fss ! j)) = Some wcreate"
        "wcreate path (options\<lparr>opt_fs := Some (UnionFs j)\<rparr>) = Inr (Some stream)"
      and before: "\<forall>i<j. writable (snd (fss ! i)) = Some False
                \<or> isl (fst (createWriteStream_try (fst (fss ! i)) i path options []))"
  proof -
    from createWriteStream_try_success[OF c, of "[]"]
    have s: "fst (createWriteStream_try (fst (fss ! j)) (0 + j) path options []) = Inr stream"
      by simp
    from before have b: "\<forall>k<j. writable (snd (fss ! k)) = Some False
          \<or> isl (fst (createWriteStream_try (fst (fss ! k)) (0 + k) path options []))"
      by simp
    from createWriteStream_loop_first[OF j w s b, of "[]" None cls]
    show ?thesis by (simp add: createWriteStream_def)
  qed
  from rd wr show ?thesis by blast
qed

lemma streams_served_by_first_registered_example:
  "createReadStream [(failingFs ''EIO'', defaults), (streamFs 10, unwritable), (streamFs 20, defaults)]
       StrippedDefault ''/f''
     = (Inr 10, ClassOf (Some 10), [CallCreateReadStream 0, CallExistsSync 1, CallCreateReadStream 1])
   \<and> fst (createWriteStream [(failingFs ''EIO'', defaults), (streamFs 10, unwritable), (streamFs 20, defaults)]
       StrippedDefault ''/f'' (Some \<lparr>opt_fs = None, opt_rest = []\<rparr>))
     = Inr 20"
  using streams_served_by_first_registered
      [where fss = "[(failingFs ''EIO'', defaults), (streamFs 10, unwritable), (streamFs 20, defaults)]"
         and j = 1 and path = "''/f''" and create = "\<lambda>path. Inr (Some 10)" and stream = 10
         and cls = StrippedDefault, THEN conjunct1]
    streams_served_by_first_registered
      [where fss = "[(failingFs ''EIO'', defaults), (streamFs 10, unwritable), (streamFs 20, defaults)]"
         and j = 2 and path = "''/f''" and wcreate = "\<lambda>path options. Inr (Some 20)" and stream = 20
         and options = "\<lparr>opt_fs = None, opt_rest = []\<rparr>"
         and cls = StrippedDefault, THEN conjunct2]
  by (simp add: createReadStream_def createReadStream_try_def createWriteStream_def
      createWriteStream_try_def Let_def streamFs_def failingFs_def emptyFs_def defaults_def unwritable_def
      less_Suc_eq numeral_2_eq_2)



section \<open>Properties of the callback form of \<^verbatim>\<open>readdir\<close>\<close>

text \<open>
  Below the entry registered first, every visit passes on to the next entry with what it added to
  the map. When the entry registered first is readable and has a \<^verbatim>\<open>readdir\<close>, its visit is
  the last: it hands the caller's callback its own failure if the map is still empty, and the
  sorted map otherwise.
\<close>

lemma visited_cb_0: "visited_cb fss args 0 = []"
  by (simp add: visited_cb_def)

lemma visited_cb_Suc:
  "i < length fss \<Longrightarrow> visited_cb fss args (Suc i) = listed_cb (fss ! i) args @ visited_cb fss args i"
  by (simp add: visited_cb_def take_Suc_conv_app_nth)


lemma readdir_iterate_last:
  assumes r0: "readable (snd (fss ! 0)) \<noteq> Some False"
      and f0: "readdir_fn (fst (fss ! 0)) \<noteq> None"
      and ans: "answers (fss ! 0) args"
      and ne: "0 < length fss"
  shows "readdir_surfaced (readdir_iterate fss args True (Suc 0) error store lastError result log)
       = Some (merged_cb fss args (Suc 0) result)"
proof -
  obtain fs opts where e: "fss ! 0 = (fs, opts)" by (cases "fss ! 0")
  obtain store1 lastError1 where l: "link_object store error lastError = (store1, lastError1)"
    by (cases "link_object store error lastError")
  from f0 e obtain func where f: "readdir_fn fs = Some func" by auto
  from r0 e have r: "readable opts \<noteq> Some False" by simp
  from ans e f r obtain err resArg where b: "func args = ACalls err resArg"
    and both: "err \<noteq> None \<longrightarrow> resArg = None"
    by (cases "func args") (auto simp: answers_def split: option.splits)
  have v: "visited_cb fss args (Suc 0) = listed_cb (fss ! 0) args"
    using ne by (simp add: visited_cb_Suc visited_cb_0)
  show ?thesis
  proof (cases err)
    case None
    with e f r b l v show ?thesis
      by (cases resArg)
         (simp_all add: readdir_surfaced_def merged_cb_def failure_cb_def listed_cb_def set_all_Nil)
  next
    case (Some er)
    with both have ra: "resArg = None" by simp
    show ?thesis
    proof (cases "result = []")
      case True
      with e f r b l v Some ra show ?thesis
        by (simp add: readdir_surfaced_def merged_cb_def failure_cb_def listed_cb_def set_all_Nil
            new_error_def link_object_def)
    next
      case False
      with e f r b l v Some ra show ?thesis
        by (simp add: readdir_surfaced_def merged_cb_def failure_cb_def listed_cb_def set_all_Nil)
    qed
  qed
qed

lemma merged_cb_Suc:
  "i < length fss \<Longrightarrow>
     merged_cb fss args (Suc i) result = merged_cb fss args i (set_all (listed_cb (fss ! i) args) result)"
proof -
  assume "i < length fss"
  then have "set_all (visited_cb fss args (Suc i)) result
      = set_all (visited_cb fss args i) (set_all (listed_cb (fss ! i) args) result)"
    by (simp add: visited_cb_Suc set_all_append)
  then show ?thesis by (simp only: merged_cb_def)
qed

lemma readdir_iterate_surfaced:
  assumes r0: "readable (snd (fss ! 0)) \<noteq> Some False"
      and f0: "readdir_fn (fst (fss ! 0)) \<noteq> None"
  shows "0 < k \<Longrightarrow> k \<le> length fss \<Longrightarrow> \<forall>i<k. answers (fss ! i) args \<Longrightarrow>
     readdir_surfaced (readdir_iterate fss args True k error store lastError result log)
       = Some (merged_cb fss args k result)"
proof (induction k arbitrary: error store lastError result log)
  case 0
  then show ?case by simp
next
  case (Suc i)
  show ?case
  proof (cases "i = 0")
    case True
    from Suc.prems have "answers (fss ! 0) args" "0 < length fss" by auto
    from readdir_iterate_last[OF r0 f0 this] True show ?thesis by simp
  next
    case False
    with Suc.prems have p: "0 < i" "i \<le> length fss" "\<forall>j<i. answers (fss ! j) args" by simp_all
    note ih = Suc.IH[OF p]
    from Suc.prems have i: "i < length fss" and a: "answers (fss ! i) args" by simp_all
    note m = merged_cb_Suc[OF i]
    obtain fs opts where e: "fss ! i = (fs, opts)" by (cases "fss ! i")
    obtain store1 lastError1 where l: "link_object store error lastError = (store1, lastError1)"
      by (cases "link_object store error lastError")
    show ?thesis
    proof (cases "readdir_fn fs")
      case None
      with e l False show ?thesis
        by (simp add: m ih new_error_def listed_cb_def set_all_Nil)
    next
      case (Some func)
      show ?thesis
      proof (cases "readable opts = Some False")
        case True
        with Some e l False show ?thesis
          by (simp add: m ih new_error_def listed_cb_def set_all_Nil)
      next
        case r: False
        from a e Some r obtain err resArg where b: "func args = ACalls err resArg"
          and both: "err \<noteq> None \<longrightarrow> resArg = None"
          by (cases "func args") (auto simp: answers_def split: option.splits)
        show ?thesis
        proof (cases err)
          case None
          with Some e l False r b show ?thesis
            by (cases resArg) (simp_all add: m ih listed_cb_def set_all_Nil)
        next
          case er: (Some er)
          with both have ra: "resArg = None" by simp
          from Some e l False r b er ra show ?thesis
            by (cases "result = []") (simp_all add: m ih new_error_def listed_cb_def set_all_Nil)
        qed
      qed
    qed
  qed
qed

lemma readdir_cb_with_callback:
  "readdir_cb fss (args @ [JFun])
     = readdir_iterate fss (args @ [JFun]) True (length fss) None [] None [] []"
  by (simp add: readdir_cb_def find_cb_def set_arg_def)

lemma readdir_cb_surfaced:
  assumes "fss \<noteq> []" "readable (snd (fss ! 0)) \<noteq> Some False" "readdir_fn (fst (fss ! 0)) \<noteq> None"
      and "\<forall>entry \<in> set fss. answers entry (args @ [JFun])"
  shows "readdir_surfaced (readdir_cb fss (args @ [JFun]))
       = Some (merged_cb fss (args @ [JFun]) (length fss) [])"
  unfolding readdir_cb_with_callback
  using assms by (intro readdir_iterate_surfaced) simp_all

text \<open>The error that \<^verbatim>\<open>readdirSync\<close> throws is the failure of the entry registered first.\<close>

lemma message_set_prev: "message (set_prev e p) = message e"
  by (cases e) simp

lemma readdirSync_from_error_message:
  "readdirSync_from fss args k lastError result log = (Inl e, log') \<Longrightarrow> k \<le> length fss \<Longrightarrow>
     \<exists>e0. fst (readdirSync_try (fst (fss ! 0)) args 0 []) = Inl e0 \<and> message e = message e0"
proof (induction k arbitrary: lastError result log)
  case 0
  then show ?case by simp
next
  case (Suc i)
  from Suc.prems(2) have i: "i \<le> length fss" by simp
  show ?case
  proof (cases "readable (snd (fss ! i)) = Some False")
    case True
    with Suc.prems(1) have "readdirSync_from fss args i lastError result log = (Inl e, log')"
      by (simp only: readdirSync_from_unreadable)
    from Suc.IH[OF this i] show ?thesis .
  next
    case False
    obtain a l where t: "readdirSync_try (fst (fss ! i)) args i log = (a, l)"
      by (cases "readdirSync_try (fst (fss ! i)) args i log")
    from t have a: "fst (readdirSync_try (fst (fss ! i)) args 0 []) = a"
      using readdirSync_try_fst[of "fst (fss ! i)" args i log] by simp
    show ?thesis
    proof (cases a)
      case (Inr entries)
      with Suc.prems(1) have "readdirSync_from fss args i lastError (set_all entries result) l = (Inl e, log')"
        unfolding readdirSync_from_readable[OF False] t by simp
      from Suc.IH[OF this i] show ?thesis .
    next
      case (Inl err)
      show ?thesis
      proof (cases "result = [] \<and> i = 0")
        case True
        with Suc.prems(1) Inl have "e = set_prev err lastError"
          unfolding readdirSync_from_readable[OF False] t by simp
        with True a Inl show ?thesis by (simp add: message_set_prev)
      next
        case False
        with Suc.prems(1) Inl
        have "readdirSync_from fss args i (Some (set_prev err lastError)) result l = (Inl e, log')"
          unfolding readdirSync_from_readable[OF \<open>readable (snd (fss ! i)) \<noteq> Some False\<close>] t
          by (simp split: if_splits)
        from Suc.IH[OF this i] show ?thesis .
      qed
    qed
  qed
qed

lemma readdirSync_merged:
  assumes ne: "fss \<noteq> []" and r0: "readable (snd (fss ! 0)) \<noteq> Some False"
  shows "(case fst (readdirSync fss args) of Inl e \<Rightarrow> Inl (message e) | Inr xs \<Rightarrow> Inr xs)
       = merged_sync fss args"
proof (cases "fst (readdirSync fss args)")
  case (Inl e)
  then have eq: "readdirSync_from fss args (length fss) None [] [] = (Inl e, snd (readdirSync fss args))"
    by (simp add: readdirSync_def prod_eq_iff)
  from readdirSync_from_error_message[OF eq] obtain e0
    where e0: "fst (readdirSync_try (fst (fss ! 0)) args 0 []) = Inl e0" "message e = message e0"
    by auto
  from Inl have "isl (fst (readdirSync_from fss args (length fss) None [] []))"
    by (simp add: readdirSync_def)
  then have "visited fss args (length fss) = []"
    using readdirSync_from_error_iff[of "length fss" fss args None "[]" "[]"] by simp
  with Inl e0 show ?thesis by (simp add: merged_sync_def set_all_Nil)
next
  case (Inr xs)
  then have eq: "readdirSync_from fss args (length fss) None [] [] = (Inr xs, snd (readdirSync fss args))"
    by (simp add: readdirSync_def prod_eq_iff)
  from readdirSync_from_result[OF eq] have xs: "xs = sortedArrayFromReaddirResult (set_all (visited fss args (length fss)) [])"
    by simp
  from Inr have "\<not> isl (fst (readdirSync_from fss args (length fss) None [] []))"
    by (simp add: readdirSync_def)
  then have "\<not> (visited fss args (length fss) = [] \<and> isl (fst (readdirSync_try (fst (fss ! 0)) args 0 [])))"
    using readdirSync_from_error_iff[of "length fss" fss args None "[]" "[]"] ne r0 by simp
  with Inr xs show ?thesis
    by (cases "fst (readdirSync_try (fst (fss ! 0)) args 0 [])")
       (auto simp: merged_sync_def set_all_eq_Nil)
qed




text \<open>
  Where the entry registered first is not readable, the two forms part. The callback form turns
  an entry that is not readable into an error, which it hands to the callback when that entry is
  the last one visited, also after another entry has contributed items; \<^verbatim>\<open>readdirSync\<close> skips
  the entry and returns the items.
\<close>

lemma readdir_callback_reports_unreadable_entry_after_data:
  "readdir_cb [(listingFs [EntryString ''a''], unreadable), (listingFs [EntryString ''b''], defaults)]
       [JStr ''/d'', JFun]
     = (ReaddirCalled (Some 0) None,
        [\<lparr>eo_message = ''Readable disabled for vol '' @ [CHR 0x27] @ ''1'' @ [CHR 0x27] @ '': readdir'',
          eo_prev = None\<rparr>], [1])
   \<and> fst (readdirSync [(listingFs [EntryString ''a''], unreadable), (listingFs [EntryString ''b''], defaults)]
       [JStr ''/d'', JFun])
     = Inr [EntryString ''b'']"
  by (simp add: readdir_cb_def readdirSync_def readdirSync_try_def find_cb_def set_arg_def
      link_object_def new_error_def set_all_def sortedArrayFromReaddirResult_def
      listingFs_def emptyFs_def unreadable_def defaults_def digit_char_def)

text \<open>
  And when an entry succeeds between two failures while the map is still empty, the first error
  object becomes its own \<^verbatim>\<open>prev\<close>: the chain of the error that comes out does not end, where
  that of \<^verbatim>\<open>readdirSync\<close> has its two nodes.
\<close>

lemma readdir_callback_chain_is_cyclic:
  "readdir_cb [(failingFs ''E0'', defaults), (listingFs [], defaults), (failingFs ''E2'', defaults)]
       [JStr ''/d'', JFun]
     = (ReaddirCalled (Some 1) None,
        [\<lparr>eo_message = ''E2'', eo_prev = Some 0\<rparr>, \<lparr>eo_message = ''E0'', eo_prev = Some 0\<rparr>], [2, 1, 0])
   \<and> chain_in [\<lparr>eo_message = ''E2'', eo_prev = Some 0\<rparr>, \<lparr>eo_message = ''E0'', eo_prev = Some 0\<rparr>] 4 1
     = [''E0'', ''E2'', ''E2'', ''E2'']
   \<and> fst (readdirSync [(failingFs ''E0'', defaults), (listingFs [], defaults), (failingFs ''E2'', defaults)]
       [JStr ''/d'', JFun])
     = Inl (Error ''E0'' (Some (Error ''E2'' None)))"
  by (simp add: readdir_cb_def readdirSync_def readdirSync_try_def find_cb_def set_arg_def
      link_object_def new_error_def set_all_def sortedArrayFromReaddirResult_def
      listingFs_def failingFs_def emptyFs_def defaults_def eval_nat_numeral)

section \<open>The three calling conventions\<close>

lemma same_behaviour_atD:
  assumes "same_behaviour_at fs ms ma mp args"
  obtains f g p h where "syncFns fs ms = Some f" "asyncFns fs ma = Some g" "promises fs = Some p"
    "promiseFns p mp = Some h" "same_behaviour (f args) (g (args @ [JFun])) (h args)"
  using assms by (auto simp: same_behaviour_at_def split: option.splits)

lemma promiseMethod_from_sync:
  "\<forall>i<k. same_behaviour_at (fst (fss ! i)) ms ma mp args \<Longrightarrow>
     promiseMethod_from fss mp args k lastError log = as_promise (syncMethod_from fss ms args k lastError log)"
proof (induction k arbitrary: lastError log)
  case 0
  show ?case by (simp add: as_promise_def)
next
  case (Suc i)
  from Suc.prems have "same_behaviour_at (fst (fss ! i)) ms ma mp args" by simp
  then obtain f g p h where m: "syncFns (fst (fss ! i)) ms = Some f" "asyncFns (fst (fss ! i)) ma = Some g"
    "promises (fst (fss ! i)) = Some p" "promiseFns p mp = Some h"
    and sb: "same_behaviour (f args) (g (args @ [JFun])) (h args)"
    by (rule same_behaviour_atD)
  from Suc.prems have ih: "\<And>le l. promiseMethod_from fss mp args i le l = as_promise (syncMethod_from fss ms args i le l)"
    using Suc.IH by simp
  show ?case
  proof (cases "f args")
    case (Inr v)
    with sb m show ?thesis
      by (simp add: syncMethod_try_def promiseMethod_try_def as_promise_def)
  next
    case (Inl e)
    with sb have "h args = PThrows e \<or> h args = PRejects e"
      by (auto split: promise_behaviour.splits)
    with Inl m ih show ?thesis
      by (cases "i = 0") (auto simp: syncMethod_try_def promiseMethod_try_def Let_def as_promise_def)
  qed
qed

lemma asyncMethod_iterate_sync:
  "\<forall>i<Suc k. same_behaviour_at (fst (fss ! i)) ms ma mp args \<Longrightarrow> fss \<noteq> [] \<Longrightarrow>
     asyncMethod_iterate fss ma (args @ [JFun]) True (Suc k) err lastError log
       = as_callback (syncMethod_from fss ms args (Suc k) (snd (link_err err lastError)) log)"
proof (induction k arbitrary: err lastError log)
  case 0
  from "0.prems" have "same_behaviour_at (fst (fss ! 0)) ms ma mp args" by simp
  then obtain f g p h where m: "syncFns (fst (fss ! 0)) ms = Some f" "asyncFns (fst (fss ! 0)) ma = Some g"
    and sb: "same_behaviour (f args) (g (args @ [JFun])) (h args)"
    by (rule same_behaviour_atD)
  show ?case
  proof (cases "f args")
    case (Inr v)
    with sb m show ?thesis
      by (cases "link_err err lastError") (simp add: syncMethod_try_def as_callback_def)
  next
    case (Inl e)
    with sb have "g (args @ [JFun]) = AThrows e \<or> (\<exists>rest. g (args @ [JFun]) = ACalls (Some e) rest)"
      by (auto split: async_behaviour.splits option.splits)
    with Inl m "0.prems"(2) show ?thesis
      by (cases "link_err err lastError") (auto simp: syncMethod_try_def as_callback_def link_err_def)
  qed
next
  case (Suc k)
  from Suc.prems have "same_behaviour_at (fst (fss ! Suc k)) ms ma mp args" by simp
  then obtain f g p h where m: "syncFns (fst (fss ! Suc k)) ms = Some f" "asyncFns (fst (fss ! Suc k)) ma = Some g"
    and sb: "same_behaviour (f args) (g (args @ [JFun])) (h args)"
    by (rule same_behaviour_atD)
  from Suc.prems have ih: "\<And>e le l. asyncMethod_iterate fss ma (args @ [JFun]) True (Suc k) e le l
       = as_callback (syncMethod_from fss ms args (Suc k) (snd (link_err e le)) l)"
    using Suc.IH by simp
  show ?case
  proof (cases "f args")
    case (Inr v)
    with sb m show ?thesis
      by (cases "link_err err lastError")
         (simp add: syncMethod_try_def as_callback_def del: asyncMethod_iterate.simps(2)
            add: asyncMethod_iterate.simps(2)[of _ _ _ _ "Suc k"])
  next
    case (Inl e)
    with sb have "g (args @ [JFun]) = AThrows e \<or> (\<exists>rest. g (args @ [JFun]) = ACalls (Some e) rest)"
      by (auto split: async_behaviour.splits option.splits)
    then have "asyncMethod_iterate fss ma (args @ [JFun]) True (Suc (Suc k)) err lastError log
      = asyncMethod_iterate fss ma (args @ [JFun]) True (Suc k) (Some e) (snd (link_err err lastError)) (log @ [Suc k])"
      using m by (cases "link_err err lastError") (auto simp: asyncMethod_iterate.simps(2)[of _ _ _ _ "Suc k"])
    also have "\<dots> = as_callback (syncMethod_from fss ms args (Suc k)
                         (Some (set_prev e (snd (link_err err lastError)))) (log @ [Suc k]))"
      by (simp only: ih link_err_Some snd_conv)
    also have "\<dots> = as_callback (syncMethod_from fss ms args (Suc (Suc k)) (snd (link_err err lastError)) log)"
      using Inl m by (simp add: syncMethod_from.simps(2)[of _ _ _ "Suc k"] syncMethod_try_def
          del: syncMethod_from.simps)
    finally show ?thesis .
  qed
qed

lemma same_listing_at_try:
  "same_listing_at fs args \<Longrightarrow>
     awaited (fst (readdirPromise_try fs args i log)) = Some (fst (readdirSync_try fs args i log))
     \<and> snd (readdirPromise_try fs args i log) = snd (readdirSync_try fs args i log)"
  by (auto simp: same_listing_at_def readdirPromise_try_def readdirSync_try_def split: option.splits)

lemma readdirPromise_from_sync:
  "\<forall>i<k. readable (snd (fss ! i)) \<noteq> Some False \<longrightarrow> same_listing_at (fst (fss ! i)) args \<Longrightarrow>
     readdirPromise_from fss args k lastError result log
       = as_promise (readdirSync_from fss args k lastError result log)"
proof (induction k arbitrary: lastError result log)
  case 0
  show ?case by (simp add: as_promise_def)
next
  case (Suc i)
  from Suc.prems have ih: "\<And>le r l. readdirPromise_from fss args i le r l
       = as_promise (readdirSync_from fss args i le r l)"
    using Suc.IH by simp
  obtain fs opts where e: "fss ! i = (fs, opts)" by (cases "fss ! i")
  show ?case
  proof (cases "readable opts = Some False")
    case True
    with e ih show ?thesis by simp
  next
    case False
    with Suc.prems e have "same_listing_at fs args" by auto
    from same_listing_at_try[OF this, of i log]
    obtain a l where s: "readdirSync_try fs args i log = (a, l)"
      and p: "snd (readdirPromise_try fs args i log) = l" "awaited (fst (readdirPromise_try fs args i log)) = Some a"
      by (cases "readdirSync_try fs args i log") auto
    obtain b where pb: "readdirPromise_try fs args i log = (b, l)" "awaited b = Some a"
      using p by (cases "readdirPromise_try fs args i log") auto
    show ?thesis
      using e False s pb ih
      by (cases a) (auto simp: Let_def as_promise_def)
  qed
qed

text \<open>
  A readable entry whose \<^verbatim>\<open>readdirSync\<close> and \<^verbatim>\<open>readdir\<close> behave identically answers, adds
  the same items to the map in both forms and fails with the same error in both.
\<close>

lemma same_listing_cb_answers:
  "readable (snd entry) \<noteq> Some False \<longrightarrow> same_listing_cb_at (fst entry) args \<Longrightarrow>
     answers entry (args @ [JFun])"
  by (auto simp: answers_def same_listing_cb_at_def split: option.splits sum.splits)

lemma same_listing_cb_listed:
  "readable (snd entry) \<noteq> Some False \<longrightarrow> same_listing_cb_at (fst entry) args \<Longrightarrow>
     listed_cb entry (args @ [JFun]) = listed entry args"
  by (auto simp: listed_cb_def listed_def readdirSync_try_def same_listing_cb_at_def
      split: option.splits sum.splits)

lemma same_listing_cb_visited:
  "k \<le> length fss \<Longrightarrow>
   \<forall>i<k. readable (snd (fss ! i)) \<noteq> Some False \<longrightarrow> same_listing_cb_at (fst (fss ! i)) args \<Longrightarrow>
     visited_cb fss (args @ [JFun]) k = visited fss args k"
proof (induction k)
  case 0
  show ?case by (simp add: visited_0 visited_cb_0)
next
  case (Suc k)
  then show ?case by (simp add: visited_Suc visited_cb_Suc same_listing_cb_listed)
qed

lemma same_listing_cb_failure:
  "same_listing_cb_at fs args \<Longrightarrow> readdirSync_fn fs \<noteq> None \<Longrightarrow>
     failure_cb (fs, opts) (args @ [JFun])
       = (case fst (readdirSync_try fs args 0 []) of Inl e \<Rightarrow> Some e | Inr entries \<Rightarrow> None)"
  by (auto simp: failure_cb_def readdirSync_try_def same_listing_cb_at_def
      split: option.splits sum.splits)

lemma readdir_cb_sync:
  assumes ne: "fss \<noteq> []" and r0: "readable (snd (fss ! 0)) \<noteq> Some False"
      and f0: "readdirSync_fn (fst (fss ! 0)) \<noteq> None"
      and same: "\<forall>entry \<in> set fss. readable (snd entry) \<noteq> Some False \<longrightarrow> same_listing_cb_at (fst entry) args"
  shows "readdir_surfaced (readdir_cb fss (args @ [JFun]))
       = Some (case fst (readdirSync fss args) of Inl e \<Rightarrow> Inl (message e) | Inr xs \<Rightarrow> Inr xs)"
proof -
  from ne have in0: "fss ! 0 \<in> set fss" by simp
  with same r0 have s0: "same_listing_cb_at (fst (fss ! 0)) args" by blast
  with f0 have g0: "readdir_fn (fst (fss ! 0)) \<noteq> None"
    by (auto simp: same_listing_cb_at_def split: option.splits)
  from same have ans: "\<forall>entry \<in> set fss. answers entry (args @ [JFun])"
    by (simp add: same_listing_cb_answers)
  from same have "\<forall>i<length fss. readable (snd (fss ! i)) \<noteq> Some False \<longrightarrow> same_listing_cb_at (fst (fss ! i)) args"
    by simp
  from same_listing_cb_visited[OF le_refl this]
  have v: "visited_cb fss (args @ [JFun]) (length fss) = visited fss args (length fss)" .
  have f: "failure_cb (fss ! 0) (args @ [JFun])
       = (case fst (readdirSync_try (fst (fss ! 0)) args 0 []) of Inl e \<Rightarrow> Some e | Inr entries \<Rightarrow> None)"
    using same_listing_cb_failure[OF s0 f0, of "snd (fss ! 0)"] by simp
  have "merged_cb fss (args @ [JFun]) (length fss) [] = merged_sync fss args"
    unfolding merged_cb_def merged_sync_def v f
    by (cases "fst (readdirSync_try (fst (fss ! 0)) args 0 [])") simp_all
  with readdir_cb_surfaced[OF ne r0 g0 ans] readdirSync_merged[OF ne r0, of args]
  show ?thesis by simp
qed

text \<open>
  Claim C8, as stated: one filesystem that has no \<^verbatim>\<open>stat\<close> in any of the three forms, and
  no directory listing either. The blocking, the callback and the promise form of the union fail
  each with an error of its own wording, for the same behaviour of the backend, and so do
  \<^verbatim>\<open>readdirSync\<close> and the callback form of \<^verbatim>\<open>readdir\<close>. The wordings stay apart when the
  filesystem is registered through \<^verbatim>\<open>use\<close>, whose wrappers stand in for the missing members.
\<close>

theorem calling_conventions_word_missing_method_differently:
  "fst (syncMethod [(emptyFs, defaults)] ''statSync'' [JStr ''/f''])
     = Inl (Error ''Method not supported: \"statSync\" with args \"/f\"'' None)
   \<and> fst (asyncMethod [(emptyFs, defaults)] ''stat'' [JStr ''/f'', JFun])
     = Called (Some (Error ''Method not supported: stat'' None)) []
   \<and> fst (promiseMethod [(emptyFs, defaults)] ''stat'' [JStr ''/f''])
     = Rejected (Error ''Promise of method not supported: \"stat\" with args \"/f\"'' None)
   \<and> \<not> same_outcome (fst (syncMethod [(emptyFs, defaults)] ''statSync'' [JStr ''/f'']))
                      (fst (asyncMethod [(emptyFs, defaults)] ''stat'' [JStr ''/f'', JFun]))
                      (fst (promiseMethod [(emptyFs, defaults)] ''stat'' [JStr ''/f'']))
   \<and> \<not> same_outcome (fst (syncMethod (use statLists [] emptyFs None) ''statSync'' [JStr ''/f'']))
                      (fst (asyncMethod (use statLists [] emptyFs None) ''stat'' [JStr ''/f'', JFun]))
                      (fst (promiseMethod (use statLists [] emptyFs None) ''stat'' [JStr ''/f'']))
   \<and> fst (readdirSync [(emptyFs, defaults)] [JStr ''/d''])
     = Inl (Error ''Method not supported: \"readdirSync\" with args \"/d\"'' None)
   \<and> readdir_surfaced (readdir_cb [(emptyFs, defaults)] [JStr ''/d'', JFun])
     = Some (Inl ''Method not supported: readdir'')"
  by (simp add: syncMethod_def syncMethod_try_def asyncMethod_def promiseMethod_def
      promiseMethod_try_def find_cb_def set_arg_def link_err_def Let_def
      use_def createFS_def wrap_member_def wrap_promise_def member_direction_def
      promise_direction_def allowed_def statLists_def
      readdirSync_def readdirSync_try_def readdir_cb_def readdir_surfaced_def
      link_object_def new_error_def emptyFs_def defaults_def)

text \<open>
  Claim C8, amended. On a registry that is not empty, for a generic operation whose blocking,
  callback and promise functions exist on every entry and behave identically there, the three
  forms give the same result on success and the same error with the same chain on failure, and
  they call the same backends in the same order. \<^verbatim>\<open>readdirSync\<close> and the promise
  \<^verbatim>\<open>readdir\<close> agree the same way on every registry whose readable entries behave identically
  in the two forms. The callback form of \<^verbatim>\<open>readdir\<close>, given a callback, on a registry that is
  not empty, whose entry registered first is readable and has the listing functions, and whose
  readable entries behave identically in the two forms, hands its callback the listing that
  \<^verbatim>\<open>readdirSync\<close> returns, or an error with the message of the one that \<^verbatim>\<open>readdirSync\<close>
  throws.
\<close>

theorem calling_conventions_agree:
  "(fss \<noteq> [] \<and> (\<forall>entry \<in> set fss. same_behaviour_at (fst entry) ms ma mp args) \<longrightarrow>
      same_outcome (fst (syncMethod fss ms args))
                   (fst (asyncMethod fss ma (args @ [JFun])))
                   (fst (promiseMethod fss mp args))
      \<and> snd (asyncMethod fss ma (args @ [JFun])) = snd (syncMethod fss ms args)
      \<and> snd (promiseMethod fss mp args) = snd (syncMethod fss ms args))
   \<and> ((\<forall>entry \<in> set fss. readable (snd entry) \<noteq> Some False \<longrightarrow> same_listing_at (fst entry) args) \<longrightarrow>
      readdirPromise fss args = as_promise (readdirSync fss args))
   \<and> (fss \<noteq> [] \<and> readable (snd (fss ! 0)) \<noteq> Some False \<and> readdirSync_fn (fst (fss ! 0)) \<noteq> None
        \<and> (\<forall>entry \<in> set fss. readable (snd entry) \<noteq> Some False \<longrightarrow> same_listing_cb_at (fst entry) args) \<longrightarrow>
      readdir_surfaced (readdir_cb fss (args @ [JFun]))
        = Some (case fst (readdirSync fss args) of Inl e \<Rightarrow> Inl (message e) | Inr xs \<Rightarrow> Inr xs))"
proof -
  have listing: "readdirPromise fss args = as_promise (readdirSync fss args)"
    if h: "\<forall>entry \<in> set fss. readable (snd entry) \<noteq> Some False \<longrightarrow> same_listing_at (fst entry) args"
  proof -
    from h have "\<forall>i<length fss. readable (snd (fss ! i)) \<noteq> Some False \<longrightarrow> same_listing_at (fst (fss ! i)) args"
      by simp
    from readdirPromise_from_sync[OF this] show ?thesis
      by (simp add: readdirPromise_def readdirSync_def)
  qed
  have callback_listing: "readdir_surfaced (readdir_cb fss (args @ [JFun]))
        = Some (case fst (readdirSync fss args) of Inl e \<Rightarrow> Inl (message e) | Inr xs \<Rightarrow> Inr xs)"
    if h: "fss \<noteq> [] \<and> readable (snd (fss ! 0)) \<noteq> Some False \<and> readdirSync_fn (fst (fss ! 0)) \<noteq> None
        \<and> (\<forall>entry \<in> set fss. readable (snd entry) \<noteq> Some False \<longrightarrow> same_listing_cb_at (fst entry) args)"
    using h by (intro readdir_cb_sync) simp_all
  have generic: "same_outcome (fst (syncMethod fss ms args))
                   (fst (asyncMethod fss ma (args @ [JFun])))
                   (fst (promiseMethod fss mp args))
      \<and> snd (asyncMethod fss ma (args @ [JFun])) = snd (syncMethod fss ms args)
      \<and> snd (promiseMethod fss mp args) = snd (syncMethod fss ms args)"
    if ne: "fss \<noteq> []" and hs: "\<forall>entry \<in> set fss. same_behaviour_at (fst entry) ms ma mp args"
  proof -
    from hs have h: "\<forall>i<length fss. same_behaviour_at (fst (fss ! i)) ms ma mp args"
      by simp
    from ne obtain n where n: "length fss = Suc n" by (cases fss) auto
    have fc: "find_cb (args @ [JFun]) = (True, length args)"
      by (simp add: find_cb_def)
    have sa: "set_arg (args @ [JFun]) (length args) JFun = args @ [JFun]"
      by (simp add: set_arg_def)
    have a: "asyncMethod fss ma (args @ [JFun]) = as_callback (syncMethod fss ms args)"
      using asyncMethod_iterate_sync[where k = n and err = None and lastError = None and log = "[]"
          and fss = fss and ms = ms and ma = ma and mp = mp and args = args] h ne n
      by (simp add: asyncMethod_def syncMethod_def fc sa link_err_None
          del: asyncMethod_iterate.simps syncMethod_from.simps)
    have p: "promiseMethod fss mp args = as_promise (syncMethod fss ms args)"
      using promiseMethod_from_sync[OF h, where lastError = None and log = "[]"] ne
      by (simp add: promiseMethod_def syncMethod_def)
    show ?thesis
      unfolding a p
      by (cases "syncMethod fss ms args"; cases "fst (syncMethod fss ms args)")
         (auto simp: as_callback_def as_promise_def)
  qed
  from listing generic callback_listing show ?thesis by blast
qed

theorem calling_conventions_agree_witness:
  "same_outcome
     (fst (syncMethod [(answeringFs (JNum 1), defaults), (failingFs ''EIO'', defaults)] ''stat'' [JStr ''/f'']))
     (fst (asyncMethod [(answeringFs (JNum 1), defaults), (failingFs ''EIO'', defaults)] ''stat''
            ([JStr ''/f''] @ [JFun])))
     (fst (promiseMethod [(answeringFs (JNum 1), defaults), (failingFs ''EIO'', defaults)] ''stat'' [JStr ''/f'']))
   \<and> snd (asyncMethod [(answeringFs (JNum 1), defaults), (failingFs ''EIO'', defaults)] ''stat''
            ([JStr ''/f''] @ [JFun])) = [1, 0]
   \<and> readdirPromise [(failingFs ''EIO'', defaults), (listingFs [], defaults)] [JStr ''/d'']
       = as_promise (readdirSync [(failingFs ''EIO'', defaults), (listingFs [], defaults)] [JStr ''/d''])
   \<and> fst (readdirSync [(failingFs ''EIO'', defaults), (listingFs [], defaults)] [JStr ''/d''])
       = Inl (Error ''EIO'' None)
   \<and> readdir_surfaced (readdir_cb [(failingFs ''EIO'', defaults), (listingFs [], defaults)] [JStr ''/d'', JFun])
       = Some (Inl ''EIO'')"
  using calling_conventions_agree
    [where fss = "[(answeringFs (JNum 1), defaults), (failingFs ''EIO'', defaults)]"
       and ms = "''stat''" and ma = "''stat''" and mp = "''stat''" and args = "[JStr ''/f'']"]
    calling_conventions_agree
    [where fss = "[(failingFs ''EIO'', defaults), (listingFs [], defaults)]"
       and ms = "''stat''" and ma = "''stat''" and mp = "''stat''" and args = "[JStr ''/d'']"]
  by (simp add: same_behaviour_at_def same_listing_at_def same_listing_cb_at_def
      syncMethod_def syncMethod_try_def readdirSync_def readdirSync_try_def set_all_def
      answeringFs_def failingFs_def listingFs_def emptyFs_def defaults_def)

section \<open>Registration and the generic dispatchers\<close>

text \<open>
  \<^verbatim>\<open>use\<close> puts the new entry last, which is where the dispatchers start. What the entry holds
  under a listed name is the backend's own function when the flags allow the direction of the
  method, and a function that throws when they do not; then the dispatcher passes on to the
  entries registered before.
\<close>

lemma length_use: "length (use L fss fs options) = Suc (length fss)"
  by (simp add: use_def Let_def)

lemma last_use:
  "last (use L fss fs (Some options)) = (createFS L fs options, options)"
  by (simp add: use_def)

lemma createFS_syncFns_allowed:
  "member_direction L m = Some d \<Longrightarrow>
   allowed (readable options \<noteq> Some False) (writable options \<noteq> Some False) d \<Longrightarrow>
   syncFns fs m = Some f \<Longrightarrow>
     syncFns (createFS L fs options) m = Some f"
  by (cases "readable options"; cases "writable options")
     (auto simp: createFS_def wrap_member_def)

lemma createFS_syncFns_denied:
  "member_direction L m = Some d \<Longrightarrow>
   \<not> allowed (readable options \<noteq> Some False) (writable options \<noteq> Some False) d \<Longrightarrow>
     syncFns (createFS L fs options) m
       = Some (\<lambda>args. Inl (Error (''Filesystem is not '' @ state_name d) None))"
  by (cases "readable options"; cases "writable options")
     (auto simp: createFS_def wrap_member_def)

lemma createFS_members_defined:
  "member_direction L m \<noteq> None \<Longrightarrow>
     syncFns (createFS L fs options) m \<noteq> None \<and> asyncFns (createFS L fs options) m \<noteq> None"
  by (auto simp: createFS_def wrap_member_def Let_def)

lemma most_recently_registered_serves:
  assumes "member_direction L m = Some d"
      and "allowed (readable options \<noteq> Some False) (writable options \<noteq> Some False) d"
      and "syncFns fs m = Some f" and "f args = Inr v"
  shows "syncMethod (use L fss fs (Some options)) m args = (Inr v, [length fss])"
  using createFS_syncFns_allowed[OF assms(1,2,3)] assms(4)
  by (simp add: syncMethod_def use_def syncMethod_try_def)

lemma gated_entry_is_passed_over:
  assumes "member_direction L m = Some d"
      and "\<not> allowed (readable options \<noteq> Some False) (writable options \<noteq> Some False) d"
      and "syncFns fs0 m = Some f0" and "f0 args = Inr v0"
  shows "syncMethod [(fs0, defaults), (createFS L fs options, options)] m args = (Inr v0, [1, 0])"
  using createFS_syncFns_denied[OF assms(1,2)] assms(3,4)
  by (simp add: syncMethod_def syncMethod_try_def)

text \<open>
  A registry whose only entry is gated against the direction of a generic blocking method: the
  call fails, with the error of the gate.
\<close>

lemma gated_registry_fails:
  assumes "member_direction L m = Some d"
      and "\<not> allowed (readable options \<noteq> Some False) (writable options \<noteq> Some False) d"
  shows "syncMethod [(createFS L fs options, options)] m args
       = (Inl (Error (''Filesystem is not '' @ state_name d) None), [0])"
  using createFS_syncFns_denied[OF assms(1,2)]
  by (simp add: syncMethod_def syncMethod_try_def)

text \<open>
  When every entry fails a generic blocking operation, the error that comes out has one node for
  each entry; following \<^verbatim>\<open>prev\<close> from it, the failures are met from the last attempt (entry 0)
  back to the first (the entry registered last).
\<close>

lemma syncMethod_try_fst:
  "fst (syncMethod_try fs m args i log) = fst (syncMethod_try fs m args i' log')"
  by (simp add: syncMethod_try_def split: option.splits)

lemma syncMethod_from_all_fail:
  "0 < k \<Longrightarrow> k \<le> length fss \<Longrightarrow>
   (\<forall>i<k. isl (fst (syncMethod_try (fst (fss ! i)) m args i []))) \<Longrightarrow>
     \<exists>e. fst (syncMethod_from fss m args k lastError log) = Inl e
       \<and> chain e = map (\<lambda>i. message (projl (fst (syncMethod_try (fst (fss ! i)) m args i [])))) [0..<k]
                     @ chain_of lastError"
proof (induction k arbitrary: lastError log)
  case 0
  then show ?case by simp
next
  case (Suc i)
  obtain a l where t: "syncMethod_try (fst (fss ! i)) m args i log = (a, l)"
    by (cases "syncMethod_try (fst (fss ! i)) m args i log")
  then have a: "fst (syncMethod_try (fst (fss ! i)) m args i []) = a"
    using syncMethod_try_fst[of "fst (fss ! i)" m args i "[]" i log] by simp
  with Suc.prems(3) obtain err where err: "a = Inl err" by (cases a) auto
  show ?case
  proof (cases "i = 0")
    case True
    with t err a show ?thesis by (simp add: chain_set_prev)
  next
    case False
    with Suc.prems have "0 < i" "i \<le> length fss"
      "\<forall>j<i. isl (fst (syncMethod_try (fst (fss ! j)) m args j []))" by simp_all
    from Suc.IH[OF this, of "Some (set_prev err lastError)" l]
    obtain e where "fst (syncMethod_from fss m args i (Some (set_prev err lastError)) l) = Inl e"
      "chain e = map (\<lambda>i. message (projl (fst (syncMethod_try (fst (fss ! i)) m args i [])))) [0..<i]
                     @ chain_of (Some (set_prev err lastError))"
      by blast
    with False t err a show ?thesis
      by (simp add: chain_set_prev chain_of_def)
  qed
qed

lemma syncMethod_all_fail_chain:
  assumes "fss \<noteq> []"
      and "\<forall>i<length fss. isl (fst (syncMethod_try (fst (fss ! i)) m args i []))"
  shows "\<exists>e. fst (syncMethod fss m args) = Inl e
       \<and> chain e = map (\<lambda>i. message (projl (fst (syncMethod_try (fst (fss ! i)) m args i [])))) [0..<length fss]"
  using syncMethod_from_all_fail[of "length fss" fss m args None "[]"] assms
  by (simp add: syncMethod_def chain_of_def)

end
